theory Spec2Isabelle
  imports Main "HOL-Library.Sublist"
begin

section \<open>FetchForge task orchestration: data model\<close>

text \<open>
  The Go program keeps its state in one \<open>App\<close> value: a map from task id to task, the
  list \<open>order\<close> of ids, and a channel \<open>queue\<close> of ids that the workers drain.
  Go strings are byte strings, read as UTF-8 by the library, and are modelled as
  \<open>string\<close>, a list of bytes. A \<open>time.Time\<close> is modelled by its instant, an \<open>int\<close>
  of nanoseconds; \<open>time.Now()\<close> is a parameter \<open>now\<close> of every operation that reads
  the clock. JSON text is modelled by the list of records it decodes to.
\<close>

subsection \<open>Package \<open>unicode/utf8\<close>\<close>

definition byteIn :: "nat \<Rightarrow> nat \<Rightarrow> char \<Rightarrow> bool" where
  "byteIn lo hi c \<longleftrightarrow> lo \<le> (of_char c :: nat) \<and> (of_char c :: nat) \<le> hi"

text \<open>
  \<open>utf8.DecodeRune\<close>: \<open>runeLen s\<close> is the number of bytes of the well-formed encoding
  that \<open>s\<close> starts with, and 0 where the decoder answers \<open>(RuneError, 1)\<close>, that is
  for an empty, truncated, overlong or otherwise ill-formed start. The second byte has
  the narrower range after \<open>E0\<close>, \<open>ED\<close>, \<open>F0\<close> and \<open>F4\<close>.
\<close>

definition runeLen :: "string \<Rightarrow> nat" where
  "runeLen s =
     (case s of
        [] \<Rightarrow> 0
      | b0 # r \<Rightarrow>
          if byteIn 0x00 0x7F b0 then 1
          else if byteIn 0xC2 0xDF b0 then
            (case r of
               b1 # r1 \<Rightarrow> if byteIn 0x80 0xBF b1 then 2 else 0
             | [] \<Rightarrow> 0)
          else if byteIn 0xE0 0xEF b0 then
            (case r of
               b1 # b2 # r2 \<Rightarrow>
                 if byteIn (if b0 = CHR 0xE0 then 0xA0 else 0x80)
                           (if b0 = CHR 0xED then 0x9F else 0xBF) b1
                    \<and> byteIn 0x80 0xBF b2
                 then 3 else 0
             | _ \<Rightarrow> 0)
          else if byteIn 0xF0 0xF4 b0 then
            (case r of
               b1 # b2 # b3 # r3 \<Rightarrow>
                 if byteIn (if b0 = CHR 0xF0 then 0x90 else 0x80)
                           (if b0 = CHR 0xF4 then 0x8F else 0xBF) b1
                    \<and> byteIn 0x80 0xBF b2 \<and> byteIn 0x80 0xBF b3
                 then 4 else 0
             | _ \<Rightarrow> 0)
          else 0)"

subsection \<open>Package \<open>strings\<close>\<close>

text \<open>
  The encodings of the runes for which \<open>unicode.IsSpace\<close> holds: tab, newline, vertical
  tab, form feed, carriage return, space, U+0085, U+00A0, U+1680, U+2000 to U+200A,
  U+2028, U+2029, U+202F, U+205F and U+3000.
\<close>

definition spaceRunes :: "string list" where
  "spaceRunes =
     [[CHR 0x09], [CHR 0x0A], [CHR 0x0B], [CHR 0x0C], [CHR 0x0D], [CHR 0x20],
      [CHR 0xC2, CHR 0x85], [CHR 0xC2, CHR 0xA0], [CHR 0xE1, CHR 0x9A, CHR 0x80],
      [CHR 0xE2, CHR 0x80, CHR 0x80], [CHR 0xE2, CHR 0x80, CHR 0x81],
      [CHR 0xE2, CHR 0x80, CHR 0x82], [CHR 0xE2, CHR 0x80, CHR 0x83],
      [CHR 0xE2, CHR 0x80, CHR 0x84], [CHR 0xE2, CHR 0x80, CHR 0x85],
      [CHR 0xE2, CHR 0x80, CHR 0x86], [CHR 0xE2, CHR 0x80, CHR 0x87],
      [CHR 0xE2, CHR 0x80, CHR 0x88], [CHR 0xE2, CHR 0x80, CHR 0x89],
      [CHR 0xE2, CHR 0x80, CHR 0x8A], [CHR 0xE2, CHR 0x80, CHR 0xA8],
      [CHR 0xE2, CHR 0x80, CHR 0xA9], [CHR 0xE2, CHR 0x80, CHR 0xAF],
      [CHR 0xE2, CHR 0x81, CHR 0x9F], [CHR 0xE3, CHR 0x80, CHR 0x80]]"

text \<open>
  \<open>strings.TrimSpace\<close> decodes runes from the left, then from the right, and drops
  them while they are white space. A white-space rune is decoded at the start of \<open>s\<close>
  exactly when one of the encodings above is a prefix of \<open>s\<close>, and at its end exactly
  when one is a suffix: each encoding is well formed and begins with a byte that never
  continues another rune. \<open>leadingSpace\<close> and \<open>trailingSpace\<close> give the length of
  that encoding, 0 when there is none.
\<close>

definition leadingSpace :: "string \<Rightarrow> nat" where
  "leadingSpace s = (case find (\<lambda>r. prefix r s) spaceRunes of None \<Rightarrow> 0 | Some r \<Rightarrow> length r)"

definition trailingSpace :: "string \<Rightarrow> nat" where
  "trailingSpace s = (case find (\<lambda>r. suffix r s) spaceRunes of None \<Rightarrow> 0 | Some r \<Rightarrow> length r)"

function TrimLeft :: "string \<Rightarrow> string" where
  "TrimLeft s = (if leadingSpace s = 0 then s else TrimLeft (drop (leadingSpace s) s))"
  by pat_completeness auto
termination
proof (relation "measure length")
  show "wf (measure length)" by simp
next
  fix s :: string
  assume n: "leadingSpace s \<noteq> 0"
  have "leadingSpace [] = 0"
    by (simp add: leadingSpace_def spaceRunes_def)
  with n have "s \<noteq> []" by auto
  with n show "(drop (leadingSpace s) s, s) \<in> measure length" by simp
qed

declare TrimLeft.simps [simp del]

function TrimRight :: "string \<Rightarrow> string" where
  "TrimRight s =
     (if trailingSpace s = 0 then s else TrimRight (take (length s - trailingSpace s) s))"
  by pat_completeness auto
termination
proof (relation "measure length")
  show "wf (measure length)" by simp
next
  fix s :: string
  assume n: "trailingSpace s \<noteq> 0"
  have "trailingSpace [] = 0"
    by (simp add: trailingSpace_def spaceRunes_def)
  with n have "s \<noteq> []" by auto
  with n show "(take (length s - trailingSpace s) s, s) \<in> measure length" by simp
qed

declare TrimRight.simps [simp del]

definition TrimSpace :: "string \<Rightarrow> string" where
  "TrimSpace s = TrimRight (TrimLeft s)"

text \<open>
  \<open>strings.ToLower\<close> maps rune by rune with the case table of package \<open>unicode\<close>. An
  ASCII letter in its result comes from that letter or its capital, except that \<open>i\<close>
  also comes from U+0130 and \<open>k\<close> from U+212A; every other rune outside ASCII, and the
  replacement rune that stands for an ill-formed byte, lowers to a rune outside ASCII.
  \<open>lowerASCII s\<close> lowers the ASCII capitals of \<open>s\<close> and keeps every other byte. It
  stands for \<open>strings.ToLower(s)\<close> where the caller only looks for ASCII bytes other
  than \<open>i\<close> and \<open>k\<close>, at the same places: the search for \<open>.part\<close> and \<open>.ytdl\<close>
  in \<open>isPartialFile\<close> and the split at \<open>x\<close> followed by \<open>Atoi\<close> in
  \<open>parseResolution\<close>.
\<close>

definition lowerByte :: "char \<Rightarrow> char" where
  "lowerByte c =
     (let n = (of_char c :: nat) in if 65 \<le> n \<and> n \<le> 90 then char_of (n + 32) else c)"

definition lowerASCII :: "string \<Rightarrow> string" where
  "lowerASCII s = map lowerByte s"

definition Contains :: "string \<Rightarrow> string \<Rightarrow> bool" where
  "Contains s substr \<longleftrightarrow> sublist substr s"

definition HasPrefix :: "string \<Rightarrow> string \<Rightarrow> bool" where
  "HasPrefix s p \<longleftrightarrow> prefix p s"

definition HasSuffix :: "string \<Rightarrow> string \<Rightarrow> bool" where
  "HasSuffix s p \<longleftrightarrow> suffix p s"

definition TrimPrefix :: "string \<Rightarrow> string \<Rightarrow> string" where
  "TrimPrefix s p = (if HasPrefix s p then drop (length p) s else s)"

definition TrimSuffix :: "string \<Rightarrow> string \<Rightarrow> string" where
  "TrimSuffix s p = (if HasSuffix s p then take (length s - length p) s else s)"

fun Join :: "string list \<Rightarrow> string \<Rightarrow> string" where
  "Join [] sep = []"
| "Join [x] sep = x"
| "Join (x # y # ys) sep = x @ sep @ Join (y # ys) sep"

text \<open>\<open>strings.Split(s, sep)\<close> for a separator of one byte.\<close>

fun Split :: "string \<Rightarrow> char \<Rightarrow> string list" where
  "Split [] sep = [[]]"
| "Split (c # cs) sep =
     (if c = sep then [] # Split cs sep
      else (case Split cs sep of [] \<Rightarrow> [[c]] | p # ps \<Rightarrow> (c # p) # ps))"

text \<open>
  \<open>strings.SplitN(s, sep, n)\<close> for a separator of one byte and \<open>n > 0\<close>: at most \<open>n\<close>
  pieces, the last one being the unsplit rest.
\<close>

fun SplitN :: "string \<Rightarrow> char \<Rightarrow> nat \<Rightarrow> string list" where
  "SplitN s sep 0 = []"
| "SplitN s sep (Suc 0) = [s]"
| "SplitN [] sep (Suc (Suc n)) = [[]]"
| "SplitN (c # cs) sep (Suc (Suc n)) =
     (if c = sep then [] # SplitN cs sep (Suc n)
      else (case SplitN cs sep (Suc (Suc n)) of [] \<Rightarrow> [[c]] | p # ps \<Rightarrow> (c # p) # ps))"

subsection \<open>Package \<open>strconv\<close>\<close>

definition isDigit :: "char \<Rightarrow> bool" where
  "isDigit c \<longleftrightarrow> 48 \<le> (of_char c :: nat) \<and> (of_char c :: nat) \<le> 57"

definition digitsVal :: "string \<Rightarrow> int" where
  "digitsVal ds = foldl (\<lambda>acc c. 10 * acc + (int (of_char c) - 48)) 0 ds"

text \<open>
  \<open>strconv.Atoi\<close>: an optional sign, at least one decimal digit and nothing else; a value
  outside the 64-bit range is an error.
\<close>

definition Atoi :: "string \<Rightarrow> int option" where
  "Atoi s =
     (let neg = (s \<noteq> [] \<and> hd s = CHR ''-'');
          ds = (if s \<noteq> [] \<and> (hd s = CHR ''-'' \<or> hd s = CHR ''+'') then tl s else s)
      in if ds = [] \<or> \<not> list_all isDigit ds then None
         else let v = (if neg then - digitsVal ds else digitsVal ds)
              in if v < - (2 ^ 63) \<or> 2 ^ 63 - 1 < v then None else Some v)"

definition digitChar :: "nat \<Rightarrow> char" where
  "digitChar d = char_of (48 + d)"

function natToString :: "nat \<Rightarrow> string" where
  "natToString n = (if n < 10 then [digitChar n] else natToString (n div 10) @ [digitChar (n mod 10)])"
  by pat_completeness auto
termination
  by (relation "measure (\<lambda>n. n)") auto

declare natToString.simps [simp del]

definition Itoa :: "int \<Rightarrow> string" where
  "Itoa i = (if i < 0 then CHR ''-'' # natToString (nat (- i)) else natToString (nat i))"

text \<open>Go's \<open>int\<close> and \<open>int64\<close> arithmetic wraps around at 64 bits.\<close>

definition wrap64 :: "int \<Rightarrow> int" where
  "wrap64 x = (x + 2 ^ 63) mod 2 ^ 64 - 2 ^ 63"

subsection \<open>Tasks and the store\<close>

type_synonym time = int

definition second :: int where
  "second = 1000000000"

definition minute :: int where
  "minute = 60 * second"

record Task =
  ID :: string
  URL :: string
  Title :: string
  SourceHost :: string
  Status :: string
  Stage :: string
  Progress :: string
  Speed :: string
  ETA :: string
  OutputPath :: string
  MissingOutput :: bool
  ErrorMessage :: string
  Resume :: bool
  Duration :: int
  Filesize :: int
  Width :: int
  Height :: int
  CreatedAt :: time
  UpdatedAt :: time

definition statusQueued :: string where
  "statusQueued = ''Queued''"

definition statusRunning :: string where
  "statusRunning = ''Running''"

definition statusSuccess :: string where
  "statusSuccess = ''Success''"

definition statusFailed :: string where
  "statusFailed = ''Failed''"

text \<open>
  The zero value of the Go struct, which \<open>&Task{...}\<close> and the JSON decoder start from.
  The zero \<open>time.Time\<close> is written as instant 0.
\<close>

definition zeroTask :: Task where
  "zeroTask = \<lparr>ID = [], URL = [], Title = [], SourceHost = [], Status = [], Stage = [],
     Progress = [], Speed = [], ETA = [], OutputPath = [], MissingOutput = False,
     ErrorMessage = [], Resume = False, Duration = 0, Filesize = 0, Width = 0, Height = 0,
     CreatedAt = 0, UpdatedAt = 0\<rparr>"

text \<open>
  The store. \<open>queue\<close> lists the ids sent on the channel and not yet received by a
  worker, oldest first; a send is modelled by appending (the channel's capacity of 100,
  beyond which a send waits for a worker, is not modelled).
\<close>

record App =
  tasks :: "string \<rightharpoonup> Task"
  order :: "string list"
  queue :: "string list"

definition NewApp :: App where
  "NewApp = \<lparr>tasks = Map.empty, order = [], queue = []\<rparr>"

text \<open>The errors the operations return, one constructor per \<open>errors.New\<close> text.\<close>

datatype error =
    TaskNotFound
  | AlreadyRunning
  | EmptyPayload
  | InvalidJSON
  | TaskIdRequired
  | InvalidImportMode
  | TrashFailed

definition enqueueTasks :: "App \<Rightarrow> string list \<Rightarrow> App" where
  "enqueueTasks a ids = a\<lparr>queue := queue a @ ids\<rparr>"

subsection \<open>The operating system\<close>

text \<open>
  What the program reads from outside its own memory is collected in one record:
  \<open>stat p\<close> is the result of \<open>os.Stat(p)\<close> (\<open>None\<close> for an error), \<open>userHomeDir\<close>
  that of \<open>os.UserHomeDir()\<close>, \<open>formatDate t\<close> is \<open>t.Format("2006-01-02")\<close>,
  \<open>walkDir root\<close> lists the calls that \<open>filepath.WalkDir(root, fn)\<close> makes to \<open>fn\<close>, in
  order, \<open>trash p\<close> tells whether the platform command run by \<open>moveToTrash(p)\<close> succeeds,
  \<open>newID k\<close> is the result of the \<open>k\<close>-th call of \<open>newID()\<close> (random bytes in hex),
  \<open>defaultTitleFromURL\<close> and \<open>sourceHostFromURL\<close> are the two helpers built on
  \<open>net/url\<close>, and \<open>ytDlpJSON u\<close> is the decoded output of the engine run with \<open>-J\<close> on
  \<open>u\<close> (\<open>None\<close> when the engine fails or its output does not decode).
\<close>

record FileInfo =
  IsDir :: bool
  Size :: int
  ModTime :: time

datatype DirEntry =
    WalkError
  | Entry (Name: string) (EntryIsDir: bool) (Info: "FileInfo option")

text \<open>
  The engine's description of a locator. A JSON number is read through
  \<open>int(*value)\<close> only, so each optional number is modelled by that integer.
\<close>

record ytdlpFormat =
  Resolution_f :: string
  Width_f :: "int option"
  Height_f :: "int option"
  Filesize_f :: "int option"
  FilesizeApprox_f :: "int option"

record ytdlpMetadata =
  Title_m :: string
  Duration_m :: "int option"
  Extractor_m :: string
  Resolution_m :: string
  Filesize_m :: "int option"
  FilesizeApprox_m :: "int option"
  Width_m :: "int option"
  Height_m :: "int option"
  Formats_m :: "ytdlpFormat list"

record formatInfo =
  Resolution_i :: string
  Width_i :: int
  Height_i :: int
  Filesize_i :: int

record Env =
  stat :: "string \<Rightarrow> FileInfo option"
  userHomeDir :: "string option"
  formatDate :: "time \<Rightarrow> string"
  walkDir :: "string \<Rightarrow> DirEntry list"
  trash :: "string \<Rightarrow> bool"
  newID :: "nat \<Rightarrow> string"
  defaultTitleFromURL :: "string \<Rightarrow> string"
  sourceHostFromURL :: "string \<Rightarrow> string"
  ytDlpJSON :: "string \<Rightarrow> ytdlpMetadata option"

definition outputMissing :: "Env \<Rightarrow> string \<Rightarrow> bool" where
  "outputMissing env outputPath =
     (if TrimSpace outputPath = [] then False
      else (case stat env outputPath of None \<Rightarrow> True | Some info \<Rightarrow> IsDir info))"

text \<open>
  \<open>filepath.Clean\<close> and \<open>filepath.Join\<close> with the separator \<open>/\<close>. \<open>cleanElems\<close>
  walks the path elements with the elements kept so far, last first: empty elements and
  \<open>.\<close> are dropped, \<open>..\<close> removes the element before it, is dropped at the root and
  is kept at the start of a relative path.
\<close>

fun cleanElems :: "bool \<Rightarrow> string list \<Rightarrow> string list \<Rightarrow> string list" where
  "cleanElems rooted [] kept = rev kept"
| "cleanElems rooted (e # es) kept =
     (if e = [] \<or> e = ''.'' then cleanElems rooted es kept
      else if e = ''..'' then
        (case kept of
           [] \<Rightarrow> if rooted then cleanElems rooted es [] else cleanElems rooted es [e]
         | k # below \<Rightarrow>
             if k = ''..'' then cleanElems rooted es (e # kept)
             else cleanElems rooted es below)
      else cleanElems rooted es (e # kept))"

definition Clean :: "string \<Rightarrow> string" where
  "Clean path =
     (if path = [] then ''.''
      else
        let rooted = (hd path = CHR ''/'');
            out = Join (cleanElems rooted (Split path (CHR ''/'')) []) ''/''
        in if rooted then CHR ''/'' # out
           else if out = [] then ''.''
           else out)"

definition filepathJoin :: "string list \<Rightarrow> string" where
  "filepathJoin elem =
     (case dropWhile (\<lambda>e. e = []) elem of
        [] \<Rightarrow> []
      | e # es \<Rightarrow> Clean (Join (e # es) ''/''))"

definition taskOutputDir :: "Env \<Rightarrow> time \<Rightarrow> string option" where
  "taskOutputDir env createdAt =
     (case userHomeDir env of
        None \<Rightarrow> None
      | Some home \<Rightarrow>
          Some (filepathJoin [home, ''.fetchforge'', ''downloads'', formatDate env createdAt]))"

section \<open>Submitting text\<close>

text \<open>
  The pattern \<open>https?://[^\s]+\<close>. In Go's regular expressions \<open>\s\<close> is the class
  \<open>[\t\n\f\r ]\<close>; every other byte, also one of a multi-byte character, matches
  \<open>[^\s]\<close>. \<open>matchURLAt s\<close> is the match that starts at the first byte of \<open>s\<close>, with
  the text after it: the scheme, then the longest run of bytes outside \<open>\s\<close>, which must
  not be empty.
\<close>

definition isSpaceRE :: "char \<Rightarrow> bool" where
  "isSpaceRE c \<longleftrightarrow> c \<in> set [CHR 0x09, CHR 0x0A, CHR 0x0C, CHR 0x0D, CHR 0x20]"

definition schemeOf :: "string \<Rightarrow> string option" where
  "schemeOf s =
     (if prefix ''https://'' s then Some ''https://''
      else if prefix ''http://'' s then Some ''http://''
      else None)"

definition matchURLAt :: "string \<Rightarrow> (string \<times> string) option" where
  "matchURLAt s =
     (case schemeOf s of
        None \<Rightarrow> None
      | Some sch \<Rightarrow>
          let r = drop (length sch) s;
              body = takeWhile (\<lambda>c. \<not> isSpaceRE c) r
          in if body = [] then None
             else Some (sch @ body, dropWhile (\<lambda>c. \<not> isSpaceRE c) r))"

text \<open>
  \<open>re.FindAllString(text, -1)\<close>: the leftmost match, then the search goes on after it.
\<close>

function FindAllString :: "string \<Rightarrow> string list" where
  "FindAllString [] = []"
| "FindAllString (c # cs) =
     (case matchURLAt (c # cs) of
        None \<Rightarrow> FindAllString cs
      | Some (m, rest) \<Rightarrow> m # FindAllString rest)"
  by pat_completeness auto
termination
proof (relation "measure length")
  show "wf (measure length)" by simp
next
  fix c :: char and cs :: string
  show "(cs, c # cs) \<in> measure length" by simp
next
  fix c :: char and cs :: string and x2 :: "string \<times> string" and m rest :: string
  assume a: "matchURLAt (c # cs) = Some x2" "(m, rest) = x2"
  have "length (dropWhile P (drop n (c # cs))) < length (c # cs)" if "0 < n" for P and n :: nat
  proof -
    have "length (dropWhile P (drop n (c # cs))) \<le> length (drop n (c # cs))"
      by (rule length_dropWhile_le)
    also have "\<dots> < length (c # cs)" using that by simp
    finally show ?thesis .
  qed
  then show "(rest, c # cs) \<in> measure length"
    using a by (auto simp: matchURLAt_def schemeOf_def Let_def split: option.splits if_splits)
qed

text \<open>The loop of \<open>extractURLs\<close>; \<open>seen\<close> holds the keys of the map of that name.\<close>

fun extractLoop :: "string list \<Rightarrow> string list \<Rightarrow> string list \<Rightarrow> string list" where
  "extractLoop [] seen out = out"
| "extractLoop (m # ms) seen out =
     (if m \<in> set seen then extractLoop ms seen out
      else extractLoop ms (m # seen) (out @ [m]))"

definition extractURLs :: "string \<Rightarrow> string list" where
  "extractURLs text = extractLoop (FindAllString text) [] []"

text \<open>
  The loop of \<open>CreateTasksFromText\<close> over the locators; \<open>k\<close> counts the calls of
  \<open>newID\<close> made so far.
\<close>

fun createLoop :: "Env \<Rightarrow> time \<Rightarrow> nat \<Rightarrow> string list \<Rightarrow> App \<times> Task list \<times> string list
    \<Rightarrow> App \<times> Task list \<times> string list" where
  "createLoop env now k [] acc = acc"
| "createLoop env now k (url # urls) (a, created, ids) =
     (let tid = newID env k;
          task = zeroTask\<lparr>ID := tid, URL := url, Title := defaultTitleFromURL env url,
                          SourceHost := sourceHostFromURL env url, Status := statusQueued,
                          Stage := ''Parse URL'', CreatedAt := now, UpdatedAt := now\<rparr>
      in createLoop env now (Suc k) urls
           (a\<lparr>tasks := (tasks a)(tid \<mapsto> task), order := order a @ [tid]\<rparr>,
            created @ [task], ids @ [tid]))"

text \<open>
  \<open>CreateTasksFromText\<close> returns the created tasks; the second component is the store
  afterwards, with the new ids sent to the queue. (The metadata prefetch that it starts
  for each task is the separate step \<open>prefetchTaskMetadata\<close> below.)
\<close>

definition CreateTasksFromText :: "App \<Rightarrow> Env \<Rightarrow> time \<Rightarrow> string \<Rightarrow> Task list \<times> App" where
  "CreateTasksFromText a env now text =
     (let urls = extractURLs text
      in if urls = [] then ([], a)
         else (case createLoop env now 0 urls (a, [], []) of
                 (a', created, ids) \<Rightarrow> (created, enqueueTasks a' ids)))"

section \<open>Resume and forced resume\<close>

text \<open>\<open>time.Since(t) < 30 * time.Second\<close>, with \<open>now\<close> the clock reading.\<close>

definition withinGrace :: "time \<Rightarrow> time \<Rightarrow> bool" where
  "withinGrace now t \<longleftrightarrow> now - t < 30 * second"

text \<open>
  An operation that changes the store returns its result, \<open>None\<close> for the Go \<open>nil\<close>
  error, together with the store as it leaves it.
\<close>

definition ResumeTask :: "App \<Rightarrow> time \<Rightarrow> string \<Rightarrow> error option \<times> App" where
  "ResumeTask a now tid =
     (case tasks a tid of
        None \<Rightarrow> (Some TaskNotFound, a)
      | Some task \<Rightarrow>
          if Status task = statusRunning \<and> withinGrace now (UpdatedAt task)
          then (Some AlreadyRunning, a)
          else
            let updated = task\<lparr>Status := statusQueued, Stage := ''Resume'', Progress := [],
                               ErrorMessage := [], Resume := True, UpdatedAt := now\<rparr>
            in (None, enqueueTasks (a\<lparr>tasks := (tasks a)(tid \<mapsto> updated)\<rparr>) [tid]))"

definition ForceResumeTask :: "App \<Rightarrow> time \<Rightarrow> string \<Rightarrow> error option \<times> App" where
  "ForceResumeTask a now tid =
     (case tasks a tid of
        None \<Rightarrow> (Some TaskNotFound, a)
      | Some task \<Rightarrow>
          let updated = task\<lparr>Status := statusQueued, Stage := ''Force Resume'', Progress := [],
                             ErrorMessage := [], Resume := True, UpdatedAt := now\<rparr>
          in (None, enqueueTasks (a\<lparr>tasks := (tasks a)(tid \<mapsto> updated)\<rparr>) [tid]))"

section \<open>Listing, deleting, exporting, importing, loading\<close>

text \<open>The snapshot loop shared by \<open>ListTasks\<close>, \<open>ExportTasks\<close>, \<open>ImportTasks\<close> and \<open>saveTasks\<close>.\<close>

fun snapshot :: "(string \<rightharpoonup> Task) \<Rightarrow> string list \<Rightarrow> Task list" where
  "snapshot m [] = []"
| "snapshot m (i # ids) =
     (case m i of None \<Rightarrow> snapshot m ids | Some task \<Rightarrow> task # snapshot m ids)"

definition ListTasks :: "App \<Rightarrow> Task list" where
  "ListTasks a = snapshot (tasks a) (order a)"

definition DeleteTask :: "App \<Rightarrow> Env \<Rightarrow> string \<Rightarrow> error option \<times> App" where
  "DeleteTask a env tid =
     (case tasks a tid of
        None \<Rightarrow> (Some TaskNotFound, a)
      | Some task \<Rightarrow>
          let outputPath = OutputPath task
          in if outputPath \<noteq> []
                \<and> (case stat env outputPath of None \<Rightarrow> False | Some info \<Rightarrow> \<not> IsDir info)
                \<and> \<not> trash env outputPath
             then (Some TrashFailed, a)
             else (None, a\<lparr>tasks := (tasks a)(tid := None),
                          order := filter (\<lambda>existing. existing \<noteq> tid) (order a)\<rparr>))"

text \<open>
  The text handed to \<open>ImportTasks\<close>: blank, not decodable as a list of tasks, or the
  list of records it decodes to.
\<close>

datatype payload = Blank | NotJSON | Records "Task list"

text \<open>
  What \<open>json.Unmarshal\<close> reads back from the text that \<open>json.MarshalIndent\<close> writes
  for a string: the encoder copies every well-formed rune (escaped or not, the decoder
  restores it) and writes the escape of U+FFFD, \<open>EF BF BD\<close> once decoded, for every byte
  at which \<open>utf8.DecodeRune\<close> answers \<open>(RuneError, 1)\<close>. \<open>jsonCopy k\<close> has \<open>k\<close>
  bytes of the current rune left to copy. Numbers, booleans and the instants of the two
  times are read back as they were.
\<close>

fun jsonCopy :: "nat \<Rightarrow> string \<Rightarrow> string" where
  "jsonCopy k [] = []"
| "jsonCopy (Suc k) (c # cs) = c # jsonCopy k cs"
| "jsonCopy 0 (c # cs) =
     (if runeLen (c # cs) = 0 then [CHR 0xEF, CHR 0xBF, CHR 0xBD] @ jsonCopy 0 cs
      else c # jsonCopy (runeLen (c # cs) - 1) cs)"

definition jsonString :: "string \<Rightarrow> string" where
  "jsonString s = jsonCopy 0 s"

definition jsonTask :: "Task \<Rightarrow> Task" where
  "jsonTask t =
     t\<lparr>ID := jsonString (ID t), URL := jsonString (URL t), Title := jsonString (Title t),
       SourceHost := jsonString (SourceHost t), Status := jsonString (Status t),
       Stage := jsonString (Stage t), Progress := jsonString (Progress t),
       Speed := jsonString (Speed t), ETA := jsonString (ETA t),
       OutputPath := jsonString (OutputPath t), ErrorMessage := jsonString (ErrorMessage t)\<rparr>"

text \<open>\<open>ExportTasks\<close> encodes the snapshot; the payload is what that text decodes to.\<close>

definition ExportTasks :: "App \<Rightarrow> payload" where
  "ExportTasks a = Records (map jsonTask (snapshot (tasks a) (order a)))"

text \<open>The first loop of \<open>ImportTasks\<close>, over the decoded records.\<close>

definition resetDownloaded :: "Task \<Rightarrow> Task" where
  "resetDownloaded item =
     item\<lparr>Status := statusQueued, Progress := [], OutputPath := [], MissingOutput := False,
          ErrorMessage := []\<rparr>"

definition prepareItem :: "Env \<Rightarrow> bool \<Rightarrow> Task \<Rightarrow> Task" where
  "prepareItem env overwriteDownloaded item =
     (let item1 = (if overwriteDownloaded \<and> Status item = statusSuccess
                   then resetDownloaded item else item)
      in item1\<lparr>MissingOutput := outputMissing env (OutputPath item1)\<rparr>)"

fun prepareImport :: "Env \<Rightarrow> bool \<Rightarrow> Task list \<Rightarrow> error + Task list" where
  "prepareImport env overwriteDownloaded [] = Inr []"
| "prepareImport env overwriteDownloaded (item # rest) =
     (if TrimSpace (ID item) = [] then Inl TaskIdRequired
      else (case prepareImport env overwriteDownloaded rest of
              Inl e \<Rightarrow> Inl e
            | Inr rest' \<Rightarrow> Inr (prepareItem env overwriteDownloaded item # rest')))"

text \<open>
  The loop of the \<open>merge\<close> case. \<open>*existing = item\<close> overwrites the task stored under
  \<open>item.ID\<close>; the second component collects \<open>enqueueIDs\<close>.
\<close>

fun mergeLoop :: "Task list \<Rightarrow> App \<times> string list \<Rightarrow> App \<times> string list" where
  "mergeLoop [] acc = acc"
| "mergeLoop (item # rest) (a, enqueueIDs) =
     (case tasks a (ID item) of
        Some existing \<Rightarrow>
          if UpdatedAt existing < UpdatedAt item
          then mergeLoop rest
                 (a\<lparr>tasks := (tasks a)(ID item \<mapsto> item\<lparr>CreatedAt := CreatedAt existing\<rparr>)\<rparr>,
                  enqueueIDs)
          else mergeLoop rest (a, enqueueIDs)
      | None \<Rightarrow>
          mergeLoop rest
            (a\<lparr>tasks := (tasks a)(ID item \<mapsto> item), order := order a @ [ID item]\<rparr>,
             if Status item = statusQueued then enqueueIDs @ [ID item] else enqueueIDs))"

text \<open>The loop of the \<open>replace\<close> case, started on the emptied store.\<close>

fun replaceLoop :: "Task list \<Rightarrow> App \<times> string list \<Rightarrow> App \<times> string list" where
  "replaceLoop [] acc = acc"
| "replaceLoop (item # rest) (a, enqueueIDs) =
     replaceLoop rest
       (a\<lparr>tasks := (tasks a)(ID item \<mapsto> item), order := order a @ [ID item]\<rparr>,
        if Status item = statusQueued then enqueueIDs @ [ID item] else enqueueIDs)"

definition ImportTasks :: "App \<Rightarrow> Env \<Rightarrow> payload \<Rightarrow> string \<Rightarrow> bool \<Rightarrow> (error + Task list) \<times> App" where
  "ImportTasks a env jsonText mode overwriteDownloaded =
     (case jsonText of
        Blank \<Rightarrow> (Inl EmptyPayload, a)
      | NotJSON \<Rightarrow> (Inl InvalidJSON, a)
      | Records raw \<Rightarrow>
          (case prepareImport env overwriteDownloaded raw of
             Inl e \<Rightarrow> (Inl e, a)
           | Inr imported \<Rightarrow>
               if mode = ''merge'' then
                 (case mergeLoop imported (a, []) of
                    (a', enqueueIDs) \<Rightarrow>
                      (Inr (snapshot (tasks a') (order a')), enqueueTasks a' enqueueIDs))
               else if mode = ''replace'' then
                 (case replaceLoop imported (a\<lparr>tasks := Map.empty, order := []\<rparr>, []) of
                    (a', enqueueIDs) \<Rightarrow>
                      (Inr (snapshot (tasks a') (order a')), enqueueTasks a' enqueueIDs))
               else (Inl InvalidImportMode, a)))"

text \<open>
  \<open>loadTasks\<close>: \<open>file\<close> is the decoded content of the tasks file, \<open>None\<close> when the file
  is absent or malformed.
\<close>

fun loadLoop :: "Task list \<Rightarrow> App \<Rightarrow> App" where
  "loadLoop [] a = a"
| "loadLoop (task # items) a =
     loadLoop items (a\<lparr>tasks := (tasks a)(ID task \<mapsto> task), order := order a @ [ID task]\<rparr>)"

definition loadTasks :: "App \<Rightarrow> Task list option \<Rightarrow> App" where
  "loadTasks a file = (case file of None \<Rightarrow> a | Some items \<Rightarrow> loadLoop items a)"

section \<open>The resume heuristic\<close>

definition isPartialFile :: "string \<Rightarrow> bool" where
  "isPartialFile name =
     (let lower = lowerASCII name
      in if Contains lower ''.part'' then True
         else if HasSuffix lower ''.ytdl'' then True
         else False)"

definition isLowerAlnum :: "char \<Rightarrow> bool" where
  "isLowerAlnum r \<longleftrightarrow>
     (97 \<le> (of_char r :: nat) \<and> (of_char r :: nat) \<le> 122)
     \<or> (48 \<le> (of_char r :: nat) \<and> (of_char r :: nat) \<le> 57)"

text \<open>
  The loop of \<open>normalizeForMatch\<close> over the runes of \<open>strings.ToLower(value)\<close>, on
  the bytes of \<open>value\<close>: an ASCII byte gives its lower-case form, kept when it is a
  letter or a digit; the encoding \<open>E2 84 AA\<close> of U+212A gives \<open>k\<close> and the encoding
  \<open>C4 B0\<close> of U+0130 gives \<open>i\<close>; every other byte belongs to a rune, or is an
  ill-formed byte, that lowers to a rune outside \<open>a..z\<close> and \<open>0..9\<close> and gives
  nothing. The decoder reaches every byte that is not a continuation byte, so the two
  encodings are found wherever they occur.
\<close>

fun lowerAlnumRunes :: "string \<Rightarrow> string" where
  "lowerAlnumRunes [] = []"
| "lowerAlnumRunes (c # cs) =
     (if isLowerAlnum (lowerByte c) then lowerByte c # lowerAlnumRunes cs
      else if prefix [CHR 0xE2, CHR 0x84, CHR 0xAA] (c # cs) then CHR ''k'' # lowerAlnumRunes cs
      else if prefix [CHR 0xC4, CHR 0xB0] (c # cs) then CHR ''i'' # lowerAlnumRunes cs
      else lowerAlnumRunes cs)"

definition normalizeForMatch :: "string \<Rightarrow> string" where
  "normalizeForMatch v = (if v = [] then [] else lowerAlnumRunes v)"

text \<open>
  The callback given to \<open>filepath.WalkDir\<close> in \<open>GetTaskResumeStatus\<close>, run over the
  visited entries; the state is the pair \<open>(found, foundRecentPartial)\<close>.
\<close>

fun resumeWalk :: "time \<Rightarrow> string \<Rightarrow> DirEntry list \<Rightarrow> bool \<times> bool \<Rightarrow> bool \<times> bool" where
  "resumeWalk createdAt normalizedTitle [] acc = acc"
| "resumeWalk createdAt normalizedTitle (WalkError # ds) acc =
     resumeWalk createdAt normalizedTitle ds acc"
| "resumeWalk createdAt normalizedTitle (Entry name dir info # ds) (found, foundRecentPartial) =
     (if found \<or> dir then resumeWalk createdAt normalizedTitle ds (found, foundRecentPartial)
      else if \<not> isPartialFile name
      then resumeWalk createdAt normalizedTitle ds (found, foundRecentPartial)
      else
        resumeWalk createdAt normalizedTitle ds
          (if Contains (normalizeForMatch name) normalizedTitle then True else found,
           if (case info of None \<Rightarrow> False | Some i \<Rightarrow> createdAt - 1 * minute < ModTime i)
           then True else foundRecentPartial))"

definition GetTaskResumeStatus :: "App \<Rightarrow> Env \<Rightarrow> time \<Rightarrow> string \<Rightarrow> error + string" where
  "GetTaskResumeStatus a env now tid =
     (case tasks a tid of
        None \<Rightarrow> Inl TaskNotFound
      | Some task \<Rightarrow>
          let createdAt = CreatedAt task;
              title = TrimSpace (Title task);
              outputPath = TrimSpace (OutputPath task);
              filesize = Filesize task
          in if Status task = statusRunning \<and> withinGrace now (UpdatedAt task) then Inr ''none''
             else (case taskOutputDir env createdAt of
                     None \<Rightarrow> Inr ''none''
                   | Some outputDir \<Rightarrow>
                       if outputPath \<noteq> []
                          \<and> (case stat env outputPath of
                                None \<Rightarrow> False
                              | Some info \<Rightarrow> \<not> IsDir info \<and> 0 < filesize \<and> Size info < filesize)
                       then Inr ''ready''
                       else if title = [] \<or> title = ''Pending title'' then Inr ''none''
                       else
                         let normalizedTitle = normalizeForMatch title
                         in if normalizedTitle = [] then Inr ''none''
                            else (case resumeWalk createdAt normalizedTitle (walkDir env outputDir)
                                         (False, False) of
                                    (found, foundRecentPartial) \<Rightarrow>
                                      if found then Inr ''ready''
                                      else if foundRecentPartial then Inr ''ready''
                                      else Inr ''none'')))"

section \<open>Metadata resolution\<close>

definition floatToInt :: "int option \<Rightarrow> int" where
  "floatToInt v = (case v of None \<Rightarrow> 0 | Some x \<Rightarrow> x)"

definition pickFilesize :: "int option \<Rightarrow> int option \<Rightarrow> int" where
  "pickFilesize primary fallback =
     (case primary of
        Some x \<Rightarrow> x
      | None \<Rightarrow> (case fallback of Some y \<Rightarrow> y | None \<Rightarrow> 0))"

definition parseResolution :: "string \<Rightarrow> int \<times> int" where
  "parseResolution v =
     (case Split (lowerASCII (TrimSpace v)) (CHR ''x'') of
        [p0, p1] \<Rightarrow>
          (case Atoi (TrimSpace p0) of
             None \<Rightarrow> (0, 0)
           | Some width \<Rightarrow>
               (case Atoi (TrimSpace p1) of
                  None \<Rightarrow> (0, 0)
                | Some height \<Rightarrow> (width, height)))
      | _ \<Rightarrow> (0, 0))"

text \<open>What one round of the loop of \<open>pickBestFormat\<close> computes from a variant.\<close>

definition formatDims :: "ytdlpFormat \<Rightarrow> int \<times> int" where
  "formatDims f =
     (let width = floatToInt (Width_f f);
          height = floatToInt (Height_f f);
          resolution = TrimSpace (Resolution_f f)
      in if width = 0 \<and> height = 0 \<and> resolution \<noteq> [] then parseResolution resolution
         else (width, height))"

definition formatInfoOf :: "ytdlpFormat \<Rightarrow> formatInfo" where
  "formatInfoOf f =
     \<lparr>Resolution_i = TrimSpace (Resolution_f f),
      Width_i = fst (formatDims f),
      Height_i = snd (formatDims f),
      Filesize_i = pickFilesize (Filesize_f f) (FilesizeApprox_f f)\<rparr>"

definition formatScore :: "ytdlpFormat \<Rightarrow> int" where
  "formatScore f =
     (let filesize = pickFilesize (Filesize_f f) (FilesizeApprox_f f)
      in if filesize = 0 then wrap64 (fst (formatDims f) * snd (formatDims f)) else filesize)"

fun pickBestLoop :: "ytdlpFormat list \<Rightarrow> formatInfo \<times> int \<Rightarrow> formatInfo \<times> int" where
  "pickBestLoop [] acc = acc"
| "pickBestLoop (f # fs) (best, bestScore) =
     (if bestScore < formatScore f then pickBestLoop fs (formatInfoOf f, formatScore f)
      else pickBestLoop fs (best, bestScore))"

definition zeroFormatInfo :: formatInfo where
  "zeroFormatInfo = \<lparr>Resolution_i = [], Width_i = 0, Height_i = 0, Filesize_i = 0\<rparr>"

definition pickBestFormat :: "ytdlpFormat list \<Rightarrow> formatInfo" where
  "pickBestFormat formats = fst (pickBestLoop formats (zeroFormatInfo, 0))"

text \<open>The part of \<open>fetchMetadata\<close> after the engine's output is decoded.\<close>

definition metadataOf :: "Env \<Rightarrow> string \<Rightarrow> ytdlpMetadata \<Rightarrow> Task" where
  "metadataOf env targetURL info =
     (let best = pickBestFormat (Formats_m info);
          width0 = floatToInt (Width_m info);
          height0 = floatToInt (Height_m info);
          wh1 = (if width0 = 0 \<and> height0 = 0 \<and> Resolution_m info \<noteq> []
                 then parseResolution (Resolution_m info) else (width0, height0));
          wh2 = (if fst wh1 = 0 \<and> snd wh1 = 0 then (Width_i best, Height_i best) else wh1);
          filesize0 = pickFilesize (Filesize_m info) (FilesizeApprox_m info);
          filesize = (if filesize0 = 0 then Filesize_i best else filesize0);
          source0 = TrimSpace (Extractor_m info);
          source = (if source0 = [] then sourceHostFromURL env targetURL else source0)
      in zeroTask\<lparr>Title := TrimSpace (Title_m info), Duration := floatToInt (Duration_m info),
                   Filesize := filesize, Width := fst wh2, Height := snd wh2,
                   SourceHost := source\<rparr>)"

definition fetchMetadata :: "Env \<Rightarrow> string \<Rightarrow> Task option" where
  "fetchMetadata env targetURL =
     (if TrimSpace targetURL = [] then None
      else (case ytDlpJSON env targetURL of
              None \<Rightarrow> None
            | Some info \<Rightarrow> Some (metadataOf env targetURL info)))"

section \<open>The worker\<close>

text \<open>
  The loop of \<open>shouldUpdateTitle\<close>; the state is \<open>(isNumeric, isHex, hexLen)\<close>. A byte
  of a multi-byte character is neither a digit nor a hex digit, as the character is not.
\<close>

definition isHexDigit :: "char \<Rightarrow> bool" where
  "isHexDigit r \<longleftrightarrow>
     (48 \<le> (of_char r :: nat) \<and> (of_char r :: nat) \<le> 57)
     \<or> (97 \<le> (of_char r :: nat) \<and> (of_char r :: nat) \<le> 102)
     \<or> (65 \<le> (of_char r :: nat) \<and> (of_char r :: nat) \<le> 70)"

fun titleScan :: "string \<Rightarrow> bool \<times> bool \<times> nat \<Rightarrow> bool \<times> bool \<times> nat" where
  "titleScan [] acc = acc"
| "titleScan (r # rs) (isNumeric, isHex, hexLen) =
     titleScan rs
       (if \<not> isDigit r then False else isNumeric,
        if isHexDigit r then isHex else False,
        if isHexDigit r then hexLen + 1 else hexLen)"

definition shouldUpdateTitle :: "string \<Rightarrow> bool" where
  "shouldUpdateTitle title0 =
     (let title = TrimSpace title0
      in if title = [] \<or> title = ''Pending title'' then True
         else (case titleScan title (True, True, 0) of
                 (isNumeric, isHex, hexLen) \<Rightarrow>
                   if isNumeric then True
                   else if isHex \<and> 12 \<le> hexLen then True
                   else False))"

text \<open>\<open>filepath.Base\<close> and \<open>filepath.Ext\<close> with the separator \<open>/\<close>.\<close>

definition Base :: "string \<Rightarrow> string" where
  "Base path =
     (if path = [] then ''.''
      else let stripped = rev (dropWhile (\<lambda>c. c = CHR ''/'') (rev path));
               element = rev (takeWhile (\<lambda>c. c \<noteq> CHR ''/'') (rev stripped))
           in if element = [] then ''/'' else element)"

definition Ext :: "string \<Rightarrow> string" where
  "Ext path =
     (let element = rev (takeWhile (\<lambda>c. c \<noteq> CHR ''/'') (rev path))
      in if CHR ''.'' \<in> set element
         then CHR ''.'' # rev (takeWhile (\<lambda>c. c \<noteq> CHR ''.'') (rev element))
         else [])"

text \<open>
  \<open>runTask\<close> takes the lock five times; between two of them the engine runs and other
  operations may change the store. Each locked section is one function of the store as it
  is when the lock is taken. In the order of the source: lines 625-638, 642-669, 681-690,
  715-724 and 731-753.
\<close>

definition runTask_markRunning :: "App \<Rightarrow> time \<Rightarrow> string \<Rightarrow> App" where
  "runTask_markRunning a now tid =
     (case tasks a tid of
        None \<Rightarrow> a
      | Some task \<Rightarrow>
          a\<lparr>tasks := (tasks a)(tid \<mapsto>
               task\<lparr>Resume := False, Status := statusRunning, Stage := ''Resolve metadata'',
                    UpdatedAt := now\<rparr>)\<rparr>)"

definition runTask_applyMetadata :: "App \<Rightarrow> time \<Rightarrow> string \<Rightarrow> Task \<Rightarrow> App" where
  "runTask_applyMetadata a now tid metadata =
     (case tasks a tid of
        None \<Rightarrow> a
      | Some task \<Rightarrow>
          let t1 = (if shouldUpdateTitle (Title task) \<and> Title metadata \<noteq> []
                    then task\<lparr>Title := Title metadata\<rparr> else task);
              t2 = (if 0 < Duration metadata then t1\<lparr>Duration := Duration metadata\<rparr> else t1);
              t3 = (if 0 < Filesize metadata then t2\<lparr>Filesize := Filesize metadata\<rparr> else t2);
              t4 = (if 0 < Width metadata then t3\<lparr>Width := Width metadata\<rparr> else t3);
              t5 = (if 0 < Height metadata then t4\<lparr>Height := Height metadata\<rparr> else t4)
          in a\<lparr>tasks := (tasks a)(tid \<mapsto> t5\<lparr>UpdatedAt := now\<rparr>)\<rparr>)"

definition runTask_markDownload :: "App \<Rightarrow> time \<Rightarrow> string \<Rightarrow> App" where
  "runTask_markDownload a now tid =
     (case tasks a tid of
        None \<Rightarrow> a
      | Some task \<Rightarrow> a\<lparr>tasks := (tasks a)(tid \<mapsto> task\<lparr>Stage := ''Download'', UpdatedAt := now\<rparr>)\<rparr>)"

definition runTask_markFinalize :: "App \<Rightarrow> time \<Rightarrow> string \<Rightarrow> App" where
  "runTask_markFinalize a now tid =
     (case tasks a tid of
        None \<Rightarrow> a
      | Some task \<Rightarrow> a\<lparr>tasks := (tasks a)(tid \<mapsto> task\<lparr>Stage := ''Finalize'', UpdatedAt := now\<rparr>)\<rparr>)"

definition runTask_markSuccess :: "App \<Rightarrow> Env \<Rightarrow> time \<Rightarrow> string \<Rightarrow> string \<Rightarrow> App" where
  "runTask_markSuccess a env now tid outputPath =
     (case tasks a tid of
        None \<Rightarrow> a
      | Some task \<Rightarrow>
          let t1 = task\<lparr>Status := statusSuccess, Stage := ''Finalize'', OutputPath := outputPath,
                        ErrorMessage := []\<rparr>;
              t2 = (if outputPath \<noteq> [] \<and> shouldUpdateTitle (Title t1)
                    then t1\<lparr>Title := TrimSuffix (Base outputPath) (Ext outputPath)\<rparr> else t1);
              t3 = (if outputPath \<noteq> []
                    then (case stat env outputPath of
                            None \<Rightarrow> t2
                          | Some info \<Rightarrow> if \<not> IsDir info then t2\<lparr>Filesize := Size info\<rparr> else t2)
                    else t2)
          in a\<lparr>tasks := (tasks a)(tid \<mapsto>
                  t3\<lparr>MissingOutput := outputMissing env outputPath, Progress := ''100%'',
                     UpdatedAt := now\<rparr>)\<rparr>)"

definition failTask :: "App \<Rightarrow> time \<Rightarrow> string \<Rightarrow> string \<Rightarrow> App" where
  "failTask a now tid message =
     (case tasks a tid of
        None \<Rightarrow> a
      | Some task \<Rightarrow>
          a\<lparr>tasks := (tasks a)(tid \<mapsto>
               task\<lparr>Status := statusFailed, Stage := ''Finalize'', ErrorMessage := message,
                    UpdatedAt := now\<rparr>)\<rparr>)"

text \<open>
  \<open>prefetchTaskMetadata\<close>: the engine is asked first, then the lock is taken; \<open>a\<close> is
  the store at that moment.
\<close>

definition prefetchTaskMetadata :: "App \<Rightarrow> Env \<Rightarrow> time \<Rightarrow> string \<Rightarrow> string \<Rightarrow> App" where
  "prefetchTaskMetadata a env now tid url =
     (case fetchMetadata env url of
        None \<Rightarrow> a
      | Some metadata \<Rightarrow>
          (case tasks a tid of
             None \<Rightarrow> a
           | Some task \<Rightarrow>
               let t1 = (if shouldUpdateTitle (Title task) \<and> Title metadata \<noteq> []
                         then task\<lparr>Title := Title metadata\<rparr> else task)
               in a\<lparr>tasks := (tasks a)(tid \<mapsto> t1\<lparr>UpdatedAt := now\<rparr>)\<rparr>))"

definition updateTaskProgress :: "App \<Rightarrow> time \<Rightarrow> string \<Rightarrow> string \<Rightarrow> App" where
  "updateTaskProgress a now tid progress =
     (let parts = SplitN progress (CHR ''|'') 3;
          percent = TrimSpace (parts ! 0);
          speed = (if 1 < length parts then TrimSpace (parts ! 1) else []);
          eta = (if 2 < length parts then TrimSpace (parts ! 2) else [])
      in (case tasks a tid of
            None \<Rightarrow> a
          | Some task \<Rightarrow>
              if Progress task = percent \<and> Speed task = speed \<and> ETA task = eta then a
              else a\<lparr>tasks := (tasks a)(tid \<mapsto>
                        task\<lparr>Progress := percent, Speed := speed, ETA := eta,
                             UpdatedAt := now\<rparr>)\<rparr>))"

text \<open>The line callback \<open>parseProgress\<close> of \<open>runCommandWithProgress\<close>.\<close>

definition parseProgress :: "App \<Rightarrow> time \<Rightarrow> string \<Rightarrow> string \<Rightarrow> App" where
  "parseProgress a now tid line =
     (if HasPrefix line ''progress:''
      then let progress = TrimSpace (TrimPrefix line ''progress:'')
           in if progress \<noteq> [] then updateTaskProgress a now tid progress else a
      else a)"

subsection \<open>A failed engine run\<close>

text \<open>
  The error returned by \<open>runCommandWithProgress\<close>: an \<open>*exec.ExitError\<close> with its exit
  code, or any other error; both carry the text of \<open>err.Error()\<close>.
\<close>

datatype cmdError = ExitError int string | OtherError string

fun errorText :: "cmdError \<Rightarrow> string" where
  "errorText (ExitError code txt) = txt"
| "errorText (OtherError txt) = txt"

definition newline :: string where
  "newline = [CHR 0x0A]"

text \<open>
  \<open>cmdArgs\<close> is \<open>cmd.Args\<close>: the engine's path followed by its arguments.
  \<open>formatCommandErrorParts\<close> is the slice \<open>parts\<close> that \<open>formatCommandError\<close> joins.
\<close>

definition formatCommandErrorParts :: "cmdError \<Rightarrow> string list \<Rightarrow> string \<Rightarrow> string \<Rightarrow> string list" where
  "formatCommandErrorParts err cmdArgs stdoutText0 stderrText0 =
     (let exitCode = (case err of ExitError code txt \<Rightarrow> ''exit code '' @ Itoa code
                                | OtherError txt \<Rightarrow> []);
          commandLine = Join cmdArgs '' '';
          stdoutText = TrimSpace stdoutText0;
          stderrText = TrimSpace stderrText0;
          parts0 = [if exitCode \<noteq> [] then ''yt-dlp failed'' @ '' ('' @ exitCode @ '')''
                    else ''yt-dlp failed''];
          parts1 = parts0 @ [''Command: '' @ commandLine];
          parts2 = (if stdoutText \<noteq> [] then parts1 @ [''Stdout:'' @ newline @ stdoutText]
                    else parts1);
          parts3 = (if stderrText \<noteq> [] then parts2 @ [''Stderr:'' @ newline @ stderrText]
                    else parts2);
          parts4 = (if stdoutText = [] \<and> stderrText = []
                    then parts3 @ [''Error: '' @ errorText err] else parts3)
      in parts4)"

definition formatCommandError :: "cmdError \<Rightarrow> string list \<Rightarrow> string \<Rightarrow> string \<Rightarrow> string" where
  "formatCommandError err cmdArgs stdoutText stderrText =
     Join (formatCommandErrorParts err cmdArgs stdoutText stderrText) newline"

text \<open>Lines 709-713 of \<open>runTask\<close>: what a run does when the engine returns an error.\<close>

definition runTask_onError :: "App \<Rightarrow> time \<Rightarrow> string \<Rightarrow> cmdError \<Rightarrow> string list \<Rightarrow> string \<Rightarrow> string \<Rightarrow> App" where
  "runTask_onError a now tid err cmdArgs stdoutText stderrText =
     failTask a now tid (formatCommandError err cmdArgs stdoutText stderrText)"

subsection \<open>The worker-side mutations\<close>

text \<open>
  Every place where a worker or a prefetch changes the store, as one action; \<open>applyWorker\<close>
  runs an action for the task id it was started with. Other operations (deleting,
  importing, resuming) may run between any two of them.
\<close>

datatype workerAction =
    MarkRunning time
  | ApplyMetadata time Task
  | MarkDownload time
  | OnError time cmdError "string list" string string
  | MarkFinalize time
  | MarkSuccess time string
  | FailTask time string
  | Prefetch time string
  | UpdateProgress time string
  | ParseProgress time string

fun applyWorker :: "Env \<Rightarrow> App \<Rightarrow> string \<times> workerAction \<Rightarrow> App" where
  "applyWorker env a (tid, MarkRunning now) = runTask_markRunning a now tid"
| "applyWorker env a (tid, ApplyMetadata now metadata) = runTask_applyMetadata a now tid metadata"
| "applyWorker env a (tid, MarkDownload now) = runTask_markDownload a now tid"
| "applyWorker env a (tid, OnError now err cmdArgs out errOut) =
     runTask_onError a now tid err cmdArgs out errOut"
| "applyWorker env a (tid, MarkFinalize now) = runTask_markFinalize a now tid"
| "applyWorker env a (tid, MarkSuccess now outputPath) = runTask_markSuccess a env now tid outputPath"
| "applyWorker env a (tid, FailTask now message) = failTask a now tid message"
| "applyWorker env a (tid, Prefetch now url) = prefetchTaskMetadata a env now tid url"
| "applyWorker env a (tid, UpdateProgress now progress) = updateTaskProgress a now tid progress"
| "applyWorker env a (tid, ParseProgress now line) = parseProgress a now tid line"

section \<open>Consistency of the store\<close>

text \<open>
  The invariant of the data model: \<open>order\<close> lists exactly the stored ids, each once,
  and every task is stored under its own id.
\<close>

definition storeConsistent :: "App \<Rightarrow> bool" where
  "storeConsistent a \<longleftrightarrow>
     distinct (order a) \<and> set (order a) = dom (tasks a)
     \<and> (\<forall>k t. tasks a k = Some t \<longrightarrow> ID t = k)"

section \<open>A concrete environment\<close>

text \<open>
  An environment in which no file exists, the home directory is \<open>/home/u\<close>, every date
  is formatted as \<open>2024-01-01\<close>, moving to the trash succeeds and the engine gives no
  metadata. It is used to evaluate the operations on concrete stores.
\<close>

definition bareEnv :: Env where
  "bareEnv =
     \<lparr>stat = (\<lambda>p. None), userHomeDir = Some ''/home/u'', formatDate = (\<lambda>t. ''2024-01-01''),
      walkDir = (\<lambda>root. []), trash = (\<lambda>p. True), newID = (\<lambda>k. ''id'' @ natToString k),
      defaultTitleFromURL = (\<lambda>u. ''Pending title''), sourceHostFromURL = (\<lambda>u. []),
      ytDlpJSON = (\<lambda>u. None)\<rparr>"

section \<open>Properties: the string helpers\<close>

lemma TrimSpace_Nil [simp]: "TrimSpace [] = []"
proof -
  have "leadingSpace [] = 0"
    by (simp add: leadingSpace_def spaceRunes_def)
  moreover have "trailingSpace [] = 0"
    by (simp add: trailingSpace_def spaceRunes_def)
  ultimately show ?thesis
    by (simp add: TrimSpace_def TrimLeft.simps [of "[]"] TrimRight.simps [of "[]"])
qed

lemma TrimSpace_x: "TrimSpace ''x'' = ''x''"
  by code_simp

lemma TrimSpace_y: "TrimSpace ''y'' = ''y''"
  by code_simp

lemma jsonCopy_ascii: "\<forall>c \<in> set s. byteIn 0x00 0x7F c \<Longrightarrow> jsonCopy 0 s = s"
  by (induction s) (simp_all add: runeLen_def)

lemma jsonString_Nil [simp]: "jsonString [] = []"
  by (simp add: jsonString_def)

section \<open>Properties: resume and forced resume\<close>

lemma ResumeTask_running:
  assumes "tasks a tid = Some task" "Status task = statusRunning" "withinGrace now (UpdatedAt task)"
  shows "ResumeTask a now tid = (Some AlreadyRunning, a)"
  using assms by (simp add: ResumeTask_def)

lemma ForceResumeTask_present:
  assumes "tasks a tid = Some task"
  shows "ForceResumeTask a now tid =
           (None, a\<lparr>tasks := (tasks a)(tid \<mapsto>
                      task\<lparr>Status := statusQueued, Stage := ''Force Resume'', Progress := [],
                           ErrorMessage := [], Resume := True, UpdatedAt := now\<rparr>),
                    queue := queue a @ [tid]\<rparr>)"
  using assms by (simp add: ForceResumeTask_def enqueueTasks_def)

lemma ResumeTask_success:
  assumes "tasks a tid = Some task" "ResumeTask a now tid = (None, a')"
  shows "a' = a\<lparr>tasks := (tasks a)(tid \<mapsto>
                      task\<lparr>Status := statusQueued, Stage := ''Resume'', Progress := [],
                           ErrorMessage := [], Resume := True, UpdatedAt := now\<rparr>),
                 queue := queue a @ [tid]\<rparr>"
  using assms by (auto simp: ResumeTask_def enqueueTasks_def split: if_splits)

text \<open>
  C6. For a task that is Running and was updated less than 30 seconds ago, \<open>ResumeTask\<close>
  returns the error \<open>AlreadyRunning\<close> and leaves the store as it was, while
  \<open>ForceResumeTask\<close> returns no error. Whenever either of the two returns no error, the
  task stored afterwards is Queued, its progress and error message are empty, its resume
  flag is set, its id is unchanged, and the id has been appended to the worker queue.
\<close>

theorem resume_guard_and_reset:
  assumes "tasks a tid = Some task"
  shows "(Status task = statusRunning \<and> withinGrace now (UpdatedAt task) \<longrightarrow>
            ResumeTask a now tid = (Some AlreadyRunning, a)
            \<and> fst (ForceResumeTask a now tid) = None)
         \<and> (\<forall>a'. ResumeTask a now tid = (None, a') \<or> ForceResumeTask a now tid = (None, a') \<longrightarrow>
               (\<exists>t'. tasks a' tid = Some t' \<and> Status t' = statusQueued \<and> Progress t' = []
                     \<and> ErrorMessage t' = [] \<and> Resume t' \<and> ID t' = ID task)
               \<and> queue a' = queue a @ [tid])"
proof (intro conjI impI allI)
  assume "Status task = statusRunning \<and> withinGrace now (UpdatedAt task)"
  then show "ResumeTask a now tid = (Some AlreadyRunning, a)"
    using assms by (simp add: ResumeTask_running)
next
  show "fst (ForceResumeTask a now tid) = None"
    using assms by (simp add: ForceResumeTask_present)
next
  fix a'
  assume h: "ResumeTask a now tid = (None, a') \<or> ForceResumeTask a now tid = (None, a')"
  then show "\<exists>t'. tasks a' tid = Some t' \<and> Status t' = statusQueued \<and> Progress t' = []
                \<and> ErrorMessage t' = [] \<and> Resume t' \<and> ID t' = ID task"
  proof
    assume "ResumeTask a now tid = (None, a')"
    from ResumeTask_success [OF assms this] show ?thesis by simp
  next
    assume "ForceResumeTask a now tid = (None, a')"
    with ForceResumeTask_present [OF assms, of now] show ?thesis by auto
  qed
next
  fix a'
  assume h: "ResumeTask a now tid = (None, a') \<or> ForceResumeTask a now tid = (None, a')"
  then show "queue a' = queue a @ [tid]"
  proof
    assume "ResumeTask a now tid = (None, a')"
    from ResumeTask_success [OF assms this] show ?thesis by simp
  next
    assume "ForceResumeTask a now tid = (None, a')"
    with ForceResumeTask_present [OF assms, of now] show ?thesis by auto
  qed
qed

theorem resume_guard_and_reset_witness:
  "ResumeTask
     (NewApp\<lparr>tasks := [''t1'' \<mapsto> zeroTask\<lparr>ID := ''t1'', Status := statusRunning, UpdatedAt := 0\<rparr>]\<rparr>)
     (10 * second) ''t1''
   = (Some AlreadyRunning,
      NewApp\<lparr>tasks := [''t1'' \<mapsto> zeroTask\<lparr>ID := ''t1'', Status := statusRunning, UpdatedAt := 0\<rparr>]\<rparr>)
   \<and> fst (ForceResumeTask
        (NewApp\<lparr>tasks := [''t1'' \<mapsto> zeroTask\<lparr>ID := ''t1'', Status := statusRunning, UpdatedAt := 0\<rparr>]\<rparr>)
        (10 * second) ''t1'') = None
   \<and> queue (snd (ForceResumeTask
        (NewApp\<lparr>tasks := [''t1'' \<mapsto> zeroTask\<lparr>ID := ''t1'', Status := statusRunning, UpdatedAt := 0\<rparr>]\<rparr>)
        (10 * second) ''t1'')) = [''t1'']"
proof -
  define T where "T = zeroTask\<lparr>ID := ''t1'', Status := statusRunning, UpdatedAt := 0\<rparr>"
  define A where "A = NewApp\<lparr>tasks := [''t1'' \<mapsto> T]\<rparr>"
  have h: "tasks A ''t1'' = Some T"
    by (simp add: A_def)
  have g: "Status T = statusRunning \<and> withinGrace (10 * second) (UpdatedAt T)"
    by (simp add: T_def withinGrace_def second_def)
  note th = resume_guard_and_reset [OF h, of "10 * second"]
  from th g have r1: "ResumeTask A (10 * second) ''t1'' = (Some AlreadyRunning, A)
      \<and> fst (ForceResumeTask A (10 * second) ''t1'') = None"
    by blast
  then have f: "ForceResumeTask A (10 * second) ''t1''
      = (None, snd (ForceResumeTask A (10 * second) ''t1''))"
    by (metis prod.collapse)
  from th f have "queue (snd (ForceResumeTask A (10 * second) ''t1'')) = queue A @ [''t1'']"
    by blast
  then have r2: "queue (snd (ForceResumeTask A (10 * second) ''t1'')) = [''t1'']"
    by (simp add: A_def NewApp_def)
  show ?thesis
    using r1 r2 unfolding A_def T_def by simp
qed

section \<open>Properties: worker-side mutations\<close>

lemma applyWorker_absent:
  assumes "tasks a tid = None"
  shows "applyWorker env a (tid, act) = a"
  using assms
  by (cases act)
     (simp_all add: runTask_markRunning_def runTask_applyMetadata_def runTask_markDownload_def
        runTask_onError_def runTask_markFinalize_def runTask_markSuccess_def failTask_def
        prefetchTaskMetadata_def updateTaskProgress_def parseProgress_def Let_def
        split: option.splits)

lemma update_present_shape:
  assumes "tasks a tid = Some t"
  shows "dom (tasks (a\<lparr>tasks := (tasks a)(tid \<mapsto> t')\<rparr>)) = dom (tasks a)"
    and "order (a\<lparr>tasks := (tasks a)(tid \<mapsto> t')\<rparr>) = order a"
    and "queue (a\<lparr>tasks := (tasks a)(tid \<mapsto> t')\<rparr>) = queue a"
  using assms by auto

lemma applyWorker_shape:
  "dom (tasks (applyWorker env a (tid, act))) = dom (tasks a)
   \<and> order (applyWorker env a (tid, act)) = order a
   \<and> queue (applyWorker env a (tid, act)) = queue a"
proof (cases "tasks a tid")
  case None
  then show ?thesis by (simp add: applyWorker_absent)
next
  case (Some t)
  then show ?thesis
    by (cases act)
       (simp_all add: runTask_markRunning_def runTask_applyMetadata_def runTask_markDownload_def
          runTask_onError_def runTask_markFinalize_def runTask_markSuccess_def failTask_def
          prefetchTaskMetadata_def updateTaskProgress_def parseProgress_def Let_def insert_absorb
          domI split: option.splits)
qed

lemma applyWorker_fold_shape:
  "dom (tasks (foldl (applyWorker env) a steps)) = dom (tasks a)
   \<and> order (foldl (applyWorker env) a steps) = order a
   \<and> queue (foldl (applyWorker env) a steps) = queue a"
proof (induction steps arbitrary: a)
  case Nil
  show ?case by simp
next
  case (Cons s steps)
  obtain tid act where s: "s = (tid, act)" by (cases s)
  show ?case
    using Cons [of "applyWorker env a (tid, act)"] applyWorker_shape [of env a tid act]
    by (simp add: s)
qed

lemma DeleteTask_removes:
  assumes "DeleteTask a env tid = (None, a')"
  shows "tasks a' tid = None" and "tid \<notin> set (order a')"
  using assms by (auto simp: DeleteTask_def Let_def split: option.splits if_splits)

text \<open>
  C10. Every worker-side mutation (the five locked sections of \<open>runTask\<close>, \<open>failTask\<close>
  and the failure path of a run, progress updates, the application of prefetched
  metadata) looks the task id up first and returns the store unchanged when the id is
  absent. No sequence of such mutations, for whatever ids, changes the set of stored ids,
  the order list or the queue; so once \<open>DeleteTask\<close> has removed a task, the run or
  prefetch still in flight for it never puts it back.
\<close>

theorem worker_mutation_absent_noop:
  "(tasks a tid = None \<longrightarrow> applyWorker env a (tid, act) = a)
   \<and> dom (tasks (foldl (applyWorker env) a steps)) = dom (tasks a)
   \<and> order (foldl (applyWorker env) a steps) = order a
   \<and> (DeleteTask a env tid = (None, a') \<longrightarrow>
        tasks (foldl (applyWorker env) a' steps) tid = None
        \<and> tid \<notin> set (order (foldl (applyWorker env) a' steps)))"
proof (intro conjI impI)
  assume "tasks a tid = None"
  then show "applyWorker env a (tid, act) = a" by (rule applyWorker_absent)
next
  show "dom (tasks (foldl (applyWorker env) a steps)) = dom (tasks a)"
    using applyWorker_fold_shape [of env a steps] by simp
next
  show "order (foldl (applyWorker env) a steps) = order a"
    using applyWorker_fold_shape [of env a steps] by simp
next
  assume d: "DeleteTask a env tid = (None, a')"
  have "dom (tasks (foldl (applyWorker env) a' steps)) = dom (tasks a')"
    using applyWorker_fold_shape [of env a' steps] by simp
  moreover have "tid \<notin> dom (tasks a')"
    using DeleteTask_removes(1) [OF d] by (simp add: domIff)
  ultimately show "tasks (foldl (applyWorker env) a' steps) tid = None"
    by (metis domIff)
next
  assume d: "DeleteTask a env tid = (None, a')"
  show "tid \<notin> set (order (foldl (applyWorker env) a' steps))"
    using applyWorker_fold_shape [of env a' steps] DeleteTask_removes(2) [OF d] by simp
qed

theorem worker_mutation_absent_noop_witness:
  "applyWorker bareEnv NewApp (''t1'', FailTask 5 ''boom'') = NewApp
   \<and> DeleteTask (NewApp\<lparr>tasks := [''t1'' \<mapsto> zeroTask\<lparr>ID := ''t1''\<rparr>], order := [''t1'']\<rparr>)
         bareEnv ''t1'' = (None, NewApp)
   \<and> tasks (foldl (applyWorker bareEnv) NewApp
         [(''t1'', UpdateProgress 6 ''50%|1MiB/s|00:10''), (''t1'', FailTask 7 ''boom'')]) ''t1''
       = None"
proof -
  define A where "A = NewApp\<lparr>tasks := [''t1'' \<mapsto> zeroTask\<lparr>ID := ''t1''\<rparr>], order := [''t1'']\<rparr>"
  define steps where
    "steps = [(''t1'', UpdateProgress 6 ''50%|1MiB/s|00:10''), (''t1'', FailTask 7 ''boom'')]"
  have h: "tasks NewApp ''t1'' = None"
    by (simp add: NewApp_def)
  have r1: "applyWorker bareEnv NewApp (''t1'', FailTask 5 ''boom'') = NewApp"
    using worker_mutation_absent_noop
      [where a = NewApp and tid = "''t1''" and env = bareEnv and act = "FailTask 5 ''boom''"] h
    by blast
  have d: "DeleteTask A bareEnv ''t1'' = (None, NewApp)"
    by (simp add: DeleteTask_def A_def NewApp_def zeroTask_def)
  have r2: "tasks (foldl (applyWorker bareEnv) NewApp steps) ''t1'' = None"
    using worker_mutation_absent_noop
      [where a = A and tid = "''t1''" and env = bareEnv and a' = NewApp and steps = steps] d
    by blast
  show ?thesis
    using r1 d r2 unfolding A_def steps_def by simp
qed

section \<open>Properties: the message of a failed run\<close>

lemma sublist_Join:
  assumes "p \<in> set parts" "sublist q p"
  shows "sublist q (Join parts sep)"
  using assms
proof (induction parts sep rule: Join.induct)
  case (1 sep)
  then show ?case by simp
next
  case (2 x sep)
  then show ?case by simp
next
  case (3 x y ys sep)
  show ?case
  proof (cases "p = x")
    case True
    have "sublist p (x @ sep @ Join (y # ys) sep)"
      unfolding True by (rule sublist_append_rightI)
    with 3 show ?thesis by (auto intro: sublist_order.order_trans)
  next
    case False
    with 3 have "sublist q (Join (y # ys) sep)" by simp
    moreover have "sublist (Join (y # ys) sep) ((x @ sep) @ Join (y # ys) sep)"
      by (rule sublist_append_leftI)
    ultimately show ?thesis by (auto intro: sublist_order.order_trans)
  qed
qed

lemma formatCommandErrorParts_command:
  "(''Command: '' @ Join cmdArgs '' '') \<in> set (formatCommandErrorParts err cmdArgs out errOut)"
  by (simp add: formatCommandErrorParts_def Let_def)

lemma formatCommandErrorParts_stdout:
  "TrimSpace out \<noteq> [] \<Longrightarrow>
     (''Stdout:'' @ newline @ TrimSpace out) \<in> set (formatCommandErrorParts err cmdArgs out errOut)"
  by (simp add: formatCommandErrorParts_def Let_def)

lemma formatCommandErrorParts_stderr:
  "TrimSpace errOut \<noteq> [] \<Longrightarrow>
     (''Stderr:'' @ newline @ TrimSpace errOut) \<in> set (formatCommandErrorParts err cmdArgs out errOut)"
  by (simp add: formatCommandErrorParts_def Let_def)

lemma formatCommandErrorParts_fallback:
  "TrimSpace out = [] \<Longrightarrow> TrimSpace errOut = [] \<Longrightarrow>
     (''Error: '' @ errorText err) \<in> set (formatCommandErrorParts err cmdArgs out errOut)"
  by (simp add: formatCommandErrorParts_def Let_def)

lemma formatCommandErrorParts_exit:
  "(''yt-dlp failed ('' @ (''exit code '' @ Itoa code) @ '')'')
     \<in> set (formatCommandErrorParts (ExitError code txt) cmdArgs out errOut)"
  by (simp add: formatCommandErrorParts_def Let_def)

lemma formatCommandError_contains:
  shows "Contains (formatCommandError err cmdArgs out errOut) (Join cmdArgs '' '')"
    and "Contains (formatCommandError err cmdArgs out errOut) (TrimSpace out)"
    and "Contains (formatCommandError err cmdArgs out errOut) (TrimSpace errOut)"
    and "Contains (formatCommandError (ExitError code txt) cmdArgs out errOut)
           (''exit code '' @ Itoa code)"
    and "TrimSpace out = [] \<Longrightarrow> TrimSpace errOut = [] \<Longrightarrow>
           Contains (formatCommandError err cmdArgs out errOut) (errorText err)"
proof -
  have "sublist (Join cmdArgs '' '') (''Command: '' @ Join cmdArgs '' '')"
    by (rule sublist_append_leftI)
  with formatCommandErrorParts_command
  show "Contains (formatCommandError err cmdArgs out errOut) (Join cmdArgs '' '')"
    unfolding Contains_def formatCommandError_def by (rule sublist_Join)
  show "Contains (formatCommandError err cmdArgs out errOut) (TrimSpace out)"
  proof (cases "TrimSpace out = []")
    case True
    then show ?thesis by (simp add: Contains_def)
  next
    case False
    have "sublist (TrimSpace out) ((''Stdout:'' @ newline) @ TrimSpace out)"
      by (rule sublist_append_leftI)
    then have "sublist (TrimSpace out) (''Stdout:'' @ newline @ TrimSpace out)"
      by simp
    with formatCommandErrorParts_stdout [OF False] show ?thesis
      unfolding Contains_def formatCommandError_def by (rule sublist_Join)
  qed
  show "Contains (formatCommandError err cmdArgs out errOut) (TrimSpace errOut)"
  proof (cases "TrimSpace errOut = []")
    case True
    then show ?thesis by (simp add: Contains_def)
  next
    case False
    have "sublist (TrimSpace errOut) ((''Stderr:'' @ newline) @ TrimSpace errOut)"
      by (rule sublist_append_leftI)
    then have "sublist (TrimSpace errOut) (''Stderr:'' @ newline @ TrimSpace errOut)"
      by simp
    with formatCommandErrorParts_stderr [OF False] show ?thesis
      unfolding Contains_def formatCommandError_def by (rule sublist_Join)
  qed
  have "sublist (''exit code '' @ Itoa code) (''yt-dlp failed ('' @ (''exit code '' @ Itoa code) @ '')'')"
    by (rule sublist_appendI)
  with formatCommandErrorParts_exit
  show "Contains (formatCommandError (ExitError code txt) cmdArgs out errOut)
          (''exit code '' @ Itoa code)"
    unfolding Contains_def formatCommandError_def by (rule sublist_Join)
  show "Contains (formatCommandError err cmdArgs out errOut) (errorText err)"
    if "TrimSpace out = []" "TrimSpace errOut = []"
  proof -
    have "sublist (errorText err) (''Error: '' @ errorText err)"
      by (rule sublist_append_leftI)
    with formatCommandErrorParts_fallback [OF that] show ?thesis
      unfolding Contains_def formatCommandError_def by (rule sublist_Join)
  qed
qed

text \<open>
  C7. When the engine invocation of a run fails, the task (if still stored) becomes Failed
  and its error message is the text composed by \<open>formatCommandError\<close>. That text
  contains the command line (the elements of \<open>cmd.Args\<close> joined by spaces), the captured
  stdout and the captured stderr, each with its surrounding white space removed, the
  exit code when the error is an exit error, and the raw error text when both captured
  streams are empty after trimming.
\<close>

theorem failed_run_diagnostic:
  assumes "tasks a tid = Some task"
  shows "\<exists>t'. tasks (runTask_onError a now tid err cmdArgs out errOut) tid = Some t'
           \<and> Status t' = statusFailed
           \<and> ErrorMessage t' = formatCommandError err cmdArgs out errOut
           \<and> Contains (ErrorMessage t') (Join cmdArgs '' '')
           \<and> Contains (ErrorMessage t') (TrimSpace out)
           \<and> Contains (ErrorMessage t') (TrimSpace errOut)
           \<and> (case err of
                 ExitError code txt \<Rightarrow> Contains (ErrorMessage t') (''exit code '' @ Itoa code)
               | OtherError txt \<Rightarrow> True)
           \<and> (TrimSpace out = [] \<and> TrimSpace errOut = [] \<longrightarrow>
                 Contains (ErrorMessage t') (errorText err))"
proof -
  let ?m = "formatCommandError err cmdArgs out errOut"
  let ?t = "task\<lparr>Status := statusFailed, Stage := ''Finalize'', ErrorMessage := ?m,
                  UpdatedAt := now\<rparr>"
  have 1: "tasks (runTask_onError a now tid err cmdArgs out errOut) tid = Some ?t"
    using assms by (simp add: runTask_onError_def failTask_def)
  have 2: "Status ?t = statusFailed" and 3: "ErrorMessage ?t = ?m"
    by simp_all
  have 4: "Contains ?m (Join cmdArgs '' '')" and 5: "Contains ?m (TrimSpace out)"
    and 6: "Contains ?m (TrimSpace errOut)"
    by (rule formatCommandError_contains)+
  have 7: "(case err of ExitError code txt \<Rightarrow> Contains ?m (''exit code '' @ Itoa code)
            | OtherError txt \<Rightarrow> True)"
    by (cases err) (simp_all only: cmdError.case formatCommandError_contains(4))
  have 8: "TrimSpace out = [] \<and> TrimSpace errOut = [] \<longrightarrow> Contains ?m (errorText err)"
    using formatCommandError_contains(5) by blast
  have 9: "Contains (ErrorMessage ?t) (Join cmdArgs '' '')
      \<and> Contains (ErrorMessage ?t) (TrimSpace out)
      \<and> Contains (ErrorMessage ?t) (TrimSpace errOut)
      \<and> (case err of
            ExitError code txt \<Rightarrow> Contains (ErrorMessage ?t) (''exit code '' @ Itoa code)
          | OtherError txt \<Rightarrow> True)
      \<and> (TrimSpace out = [] \<and> TrimSpace errOut = [] \<longrightarrow>
            Contains (ErrorMessage ?t) (errorText err))"
    unfolding 3 using 4 5 6 7 8 by blast
  show ?thesis
    using 1 2 3 9 by blast
qed

theorem failed_run_diagnostic_witness:
  "\<exists>t'. tasks (runTask_onError
                (NewApp\<lparr>tasks := [''t1'' \<mapsto> zeroTask\<lparr>ID := ''t1'', Status := statusRunning\<rparr>]\<rparr>)
                9 ''t1'' (ExitError 1 ''exit status 1'')
                [''yt-dlp'', ''--newline'', ''https://example.com/v''] []
                (''403 Forbidden'' @ newline)) ''t1'' = Some t'
         \<and> Status t' = statusFailed
         \<and> Contains (ErrorMessage t') ''yt-dlp --newline https://example.com/v''
         \<and> Contains (ErrorMessage t') ''403 Forbidden''
         \<and> Contains (ErrorMessage t') ''exit code 1''"
proof -
  define A where "A = NewApp\<lparr>tasks := [''t1'' \<mapsto> zeroTask\<lparr>ID := ''t1'', Status := statusRunning\<rparr>]\<rparr>"
  have h: "tasks A ''t1'' = Some (zeroTask\<lparr>ID := ''t1'', Status := statusRunning\<rparr>)"
    by (simp add: A_def)
  have e1: "Join [''yt-dlp'', ''--newline'', ''https://example.com/v''] '' ''
      = ''yt-dlp --newline https://example.com/v''"
    by simp
  have e2: "TrimSpace (''403 Forbidden'' @ newline) = ''403 Forbidden''"
    by code_simp
  have e3: "''exit code '' @ Itoa 1 = ''exit code 1''"
    by code_simp
  from failed_run_diagnostic [OF h, of 9 "ExitError 1 ''exit status 1''"
      "[''yt-dlp'', ''--newline'', ''https://example.com/v'']" "[]" "''403 Forbidden'' @ newline"]
  show ?thesis
    unfolding A_def e1 e2 e3 cmdError.case by blast
qed

section \<open>Properties: submitting text\<close>

lemma remdups_snoc:
  "remdups (xs @ [m]) = filter (\<lambda>x. x \<noteq> m) (remdups xs) @ [m]"
  by (induction xs) auto

lemma firsts_Cons:
  "rev (remdups (rev (m # ms))) = m # filter (\<lambda>x. x \<noteq> m) (rev (remdups (rev ms)))"
  by (simp add: remdups_snoc rev_filter)

lemma extractLoop_eq:
  "extractLoop ms seen out = out @ filter (\<lambda>m. m \<notin> set seen) (rev (remdups (rev ms)))"
proof (induction ms arbitrary: seen out)
  case Nil
  show ?case by simp
next
  case (Cons m ms)
  show ?case
  proof (cases "m \<in> set seen")
    case True
    have "filter (\<lambda>x. x \<notin> set seen) (filter (\<lambda>x. x \<noteq> m) (rev (remdups (rev ms))))
        = filter (\<lambda>x. x \<notin> set seen) (rev (remdups (rev ms)))"
      using True by (auto intro: filter_cong)
    with True Cons [of seen out] show ?thesis
      by (simp only: firsts_Cons extractLoop.simps if_True filter.simps if_False not_True_eq_False simp_thms)
  next
    case False
    have "filter (\<lambda>x. x \<notin> set (m # seen)) (rev (remdups (rev ms)))
        = filter (\<lambda>x. x \<notin> set seen) (filter (\<lambda>x. x \<noteq> m) (rev (remdups (rev ms))))"
      by (auto intro: filter_cong)
    with False Cons [of "m # seen" "out @ [m]"] show ?thesis
      by (simp only: firsts_Cons extractLoop.simps if_False filter.simps if_True simp_thms append_assoc append_Cons append_Nil)
  qed
qed

lemma extractURLs_eq: "extractURLs text = rev (remdups (rev (FindAllString text)))"
  by (simp add: extractURLs_def extractLoop_eq)

lemma matchURLAt_Some:
  assumes "matchURLAt s = Some (m, rest)"
  shows "s = m @ rest" and "prefix ''http://'' m \<or> prefix ''https://'' m"
    and "\<forall>c \<in> set m. \<not> isSpaceRE c" and "m \<noteq> []"
  using assms
  by (auto simp: matchURLAt_def schemeOf_def Let_def prefix_def isSpaceRE_def
      dest: set_takeWhileD split: option.splits if_splits)

lemma FindAllString_sound:
  "u \<in> set (FindAllString text) \<Longrightarrow>
     sublist u text \<and> (prefix ''http://'' u \<or> prefix ''https://'' u) \<and> (\<forall>c \<in> set u. \<not> isSpaceRE c)"
proof (induction "text" arbitrary: u rule: FindAllString.induct)
  case 1
  then show ?case by simp
next
  case (2 c cs)
  show ?case
  proof (cases "matchURLAt (c # cs)")
    case None
    with 2 have "sublist u cs \<and> (prefix ''http://'' u \<or> prefix ''https://'' u) \<and> (\<forall>c \<in> set u. \<not> isSpaceRE c)"
      by simp
    then show ?thesis by (auto simp: sublist_Cons_right)
  next
    case (Some p)
    obtain m rest where p: "p = (m, rest)" by (cases p)
    note ms = matchURLAt_Some [OF Some [unfolded p]]
    from 2(3) Some p have "u = m \<or> u \<in> set (FindAllString rest)" by simp
    then show ?thesis
    proof
      assume "u = m"
      with ms show ?thesis by (metis sublist_append_rightI)
    next
      assume "u \<in> set (FindAllString rest)"
      with 2(2) [OF Some p [symmetric]] have "sublist u rest \<and> (prefix ''http://'' u \<or> prefix ''https://'' u) \<and> (\<forall>c \<in> set u. \<not> isSpaceRE c)"
        by simp
      moreover have "sublist rest (c # cs)" using ms(1) by (metis sublist_append_leftI)
      ultimately show ?thesis by (auto intro: sublist_order.order_trans)
    qed
  qed
qed


lemma FindAllString_Nil_iff:
  "FindAllString input = [] \<longleftrightarrow> (\<forall>s. suffix s input \<longrightarrow> matchURLAt s = None)"
proof (induction input rule: FindAllString.induct)
  case 1
  show ?case by (simp add: matchURLAt_def schemeOf_def)
next
  case (2 c cs)
  show ?case
  proof (cases "matchURLAt (c # cs)")
    case None
    with 2(1) show ?thesis
      by (auto simp: suffix_Cons)
  next
    case (Some p)
    then show ?thesis by (auto split: prod.splits)
  qed
qed

lemma createLoop_created:
  "fst (snd (createLoop env now k urls (a, created, ids))) = created' \<Longrightarrow>
     map URL created' = map URL created @ urls"
proof (induction urls arbitrary: k a created ids created')
  case Nil
  then show ?case by simp
next
  case (Cons u urls)
  from Cons.prems show ?case
    by (simp add: Let_def Cons.IH)
qed

lemma CreateTasksFromText_urls:
  "map URL (fst (CreateTasksFromText a env now input)) = extractURLs input"
proof (cases "extractURLs input = []")
  case True
  then show ?thesis by (simp add: CreateTasksFromText_def)
next
  case False
  obtain a' created ids where c: "createLoop env now 0 (extractURLs input) (a, [], []) = (a', created, ids)"
    by (cases "createLoop env now 0 (extractURLs input) (a, [], [])") auto
  then have "fst (snd (createLoop env now 0 (extractURLs input) (a, [], []))) = created" by simp
  from createLoop_created [OF this] have "map URL created = extractURLs input" by simp
  with False c show ?thesis by (simp add: CreateTasksFromText_def Let_def)
qed

lemma createLoop_eq:
  "createLoop env now k urls (a, created, ids) =
     (let new = map2 (\<lambda>i u. zeroTask\<lparr>ID := newID env i, URL := u,
                          Title := defaultTitleFromURL env u,
                          SourceHost := sourceHostFromURL env u, Status := statusQueued,
                          Stage := ''Parse URL'', CreatedAt := now, UpdatedAt := now\<rparr>)
                  [k..<k + length urls] urls
      in (a\<lparr>tasks := tasks a ++ map_of (rev (map (\<lambda>t. (ID t, t)) new)),
            order := order a @ map ID new\<rparr>,
          created @ new, ids @ map ID new))"
proof (induction urls arbitrary: k a created ids)
  case Nil
  show ?case by simp
next
  case (Cons u urls)
  let ?mk = "\<lambda>i u. zeroTask\<lparr>ID := newID env i, URL := u,
                          Title := defaultTitleFromURL env u,
                          SourceHost := sourceHostFromURL env u, Status := statusQueued,
                          Stage := ''Parse URL'', CreatedAt := now, UpdatedAt := now\<rparr>"
  let ?rest = "map2 ?mk [Suc k..<Suc k + length urls] urls"
  let ?a1 = "a\<lparr>tasks := (tasks a)(newID env k \<mapsto> ?mk k u), order := order a @ [newID env k]\<rparr>"
  have "k < k + length (u # urls)" by simp
  from upt_conv_Cons [OF this]
  have r: "[k..<k + length (u # urls)] = k # [Suc k..<Suc k + length urls]" by simp
  have z: "map2 ?mk [k..<k + length (u # urls)] (u # urls) = ?mk k u # ?rest"
    unfolding r by simp
  have m: "tasks ?a1 ++ map_of (rev (map (\<lambda>t. (ID t, t)) ?rest))
      = tasks a ++ map_of (rev (map (\<lambda>t. (ID t, t)) (?mk k u # ?rest)))"
    by (rule ext) (simp add: map_add_def split: option.splits)
  have "createLoop env now k (u # urls) (a, created, ids)
      = createLoop env now (Suc k) urls (?a1, created @ [?mk k u], ids @ [newID env k])"
    by (simp add: Let_def)
  also have "\<dots> = (?a1\<lparr>tasks := tasks ?a1 ++ map_of (rev (map (\<lambda>t. (ID t, t)) ?rest)),
            order := order ?a1 @ map ID ?rest\<rparr>,
          (created @ [?mk k u]) @ ?rest, (ids @ [newID env k]) @ map ID ?rest)"
    unfolding Cons.IH Let_def ..
  also have "\<dots> = (a\<lparr>tasks := tasks a ++ map_of (rev (map (\<lambda>t. (ID t, t)) (?mk k u # ?rest))),
            order := order a @ map ID (?mk k u # ?rest)\<rparr>,
          created @ (?mk k u # ?rest), ids @ map ID (?mk k u # ?rest))"
    unfolding m by simp
  finally show ?case
    unfolding z Let_def .
qed

lemma CreateTasksFromText_eq:
  "CreateTasksFromText a env now input =
     (let new = map2 (\<lambda>i u. zeroTask\<lparr>ID := newID env i, URL := u,
                          Title := defaultTitleFromURL env u,
                          SourceHost := sourceHostFromURL env u, Status := statusQueued,
                          Stage := ''Parse URL'', CreatedAt := now, UpdatedAt := now\<rparr>)
                  [0..<length (extractURLs input)] (extractURLs input)
      in (new, a\<lparr>tasks := tasks a ++ map_of (rev (map (\<lambda>t. (ID t, t)) new)),
                  order := order a @ map ID new, queue := queue a @ map ID new\<rparr>))"
proof (cases "extractURLs input = []")
  case True
  then show ?thesis by (simp add: CreateTasksFromText_def)
next
  case False
  then show ?thesis
    by (simp add: CreateTasksFromText_def createLoop_eq Let_def enqueueTasks_def)
qed

lemma map_of_rev_distinct:
  assumes "distinct (map ID xs)" "x \<in> set xs"
  shows "map_of (rev (map (\<lambda>t. (ID t, t)) xs)) (ID x) = Some x"
proof -
  have "distinct (map fst (rev (map (\<lambda>t. (ID t, t)) xs)))"
    using assms(1) by (simp add: rev_map [symmetric] comp_def distinct_rev)
  moreover have "(ID x, x) \<in> set (rev (map (\<lambda>t. (ID t, t)) xs))"
    using assms(2) by auto
  ultimately show ?thesis by (rule map_of_is_SomeI)
qed


text \<open>
  C1. For every text, the tasks returned by \<open>CreateTasksFromText\<close> carry, in this order,
  the matches of the pattern \<open>https?://[^\s]+\<close> in the text with every repetition after
  the first removed (\<open>rev (remdups (rev ms))\<close> keeps the first occurrence of each element
  of \<open>ms\<close>): no locator twice, exactly the set of matches, one task per distinct match.
  Every match is a piece of the text that starts with \<open>http://\<close> or \<open>https://\<close> and
  holds no white space. The result is empty exactly when the pattern matches at no
  position of the text.

  The task made for the \<open>i\<close>-th locator has the \<open>i\<close>-th identifier that \<open>newID\<close>
  gives, the locator, the title and host derived from it, status Queued, stage
  \<open>Parse URL\<close> and both times set to the clock reading. The store afterwards has the
  identifiers of the returned tasks appended, in their order, to \<open>order\<close> and to the
  queue, and its map is the old one overwritten with the returned tasks under their
  identifiers: no other key changes, and when the identifiers are distinct every returned
  task is stored under its own.
\<close>

theorem submit_one_task_per_locator:
  "map URL (fst (CreateTasksFromText a env now input)) = rev (remdups (rev (FindAllString input)))
   \<and> distinct (map URL (fst (CreateTasksFromText a env now input)))
   \<and> set (map URL (fst (CreateTasksFromText a env now input))) = set (FindAllString input)
   \<and> length (fst (CreateTasksFromText a env now input)) = card (set (FindAllString input))
   \<and> (\<forall>u \<in> set (FindAllString input).
         sublist u input \<and> (prefix ''http://'' u \<or> prefix ''https://'' u)
         \<and> (\<forall>c \<in> set u. \<not> isSpaceRE c))
   \<and> ((fst (CreateTasksFromText a env now input) = [])
        = (\<forall>s. suffix s input \<longrightarrow> matchURLAt s = None))
   \<and> fst (CreateTasksFromText a env now input)
        = map2 (\<lambda>i u. zeroTask\<lparr>ID := newID env i, URL := u,
                            Title := defaultTitleFromURL env u,
                            SourceHost := sourceHostFromURL env u, Status := statusQueued,
                            Stage := ''Parse URL'', CreatedAt := now, UpdatedAt := now\<rparr>)
            [0..<length (extractURLs input)] (extractURLs input)
   \<and> (\<forall>t \<in> set (fst (CreateTasksFromText a env now input)).
         Status t = statusQueued \<and> Stage t = ''Parse URL''
         \<and> CreatedAt t = now \<and> UpdatedAt t = now)
   \<and> map ID (fst (CreateTasksFromText a env now input))
        = map (newID env) [0..<length (fst (CreateTasksFromText a env now input))]
   \<and> order (snd (CreateTasksFromText a env now input))
        = order a @ map ID (fst (CreateTasksFromText a env now input))
   \<and> queue (snd (CreateTasksFromText a env now input))
        = queue a @ map ID (fst (CreateTasksFromText a env now input))
   \<and> tasks (snd (CreateTasksFromText a env now input))
        = tasks a ++ map_of (rev (map (\<lambda>t. (ID t, t)) (fst (CreateTasksFromText a env now input))))
   \<and> dom (tasks (snd (CreateTasksFromText a env now input)))
        = dom (tasks a) \<union> set (map ID (fst (CreateTasksFromText a env now input)))
   \<and> (\<forall>k. k \<notin> set (map ID (fst (CreateTasksFromText a env now input)))
         \<longrightarrow> tasks (snd (CreateTasksFromText a env now input)) k = tasks a k)
   \<and> (distinct (map ID (fst (CreateTasksFromText a env now input)))
        \<longrightarrow> (\<forall>t \<in> set (fst (CreateTasksFromText a env now input)).
               tasks (snd (CreateTasksFromText a env now input)) (ID t) = Some t))"
proof -
  let ?created = "fst (CreateTasksFromText a env now input)"
  let ?store = "snd (CreateTasksFromText a env now input)"
  let ?mk = "\<lambda>i u. zeroTask\<lparr>ID := newID env i, URL := u,
                            Title := defaultTitleFromURL env u,
                            SourceHost := sourceHostFromURL env u, Status := statusQueued,
                            Stage := ''Parse URL'', CreatedAt := now, UpdatedAt := now\<rparr>"
  let ?urls = "extractURLs input"
  have 1: "map URL ?created = rev (remdups (rev (FindAllString input)))"
    by (simp only: CreateTasksFromText_urls extractURLs_eq)
  have 2: "distinct (map URL ?created)"
    unfolding 1 by simp
  have 3: "set (map URL ?created) = set (FindAllString input)"
    unfolding 1 by simp
  have "length ?created = length (map URL ?created)"
    by simp
  also have "\<dots> = card (set (map URL ?created))"
    using 2 by (simp only: distinct_card)
  finally have 4: "length ?created = card (set (FindAllString input))"
    unfolding 3 .
  have 5: "\<forall>u \<in> set (FindAllString input).
         sublist u input \<and> (prefix ''http://'' u \<or> prefix ''https://'' u)
         \<and> (\<forall>c \<in> set u. \<not> isSpaceRE c)"
    using FindAllString_sound by blast
  have "(?created = []) = (map URL ?created = [])"
    by simp
  also have "\<dots> = (FindAllString input = [])"
    unfolding 1 by (simp add: remdups_eq_nil_iff)
  finally have 6: "(?created = []) = (\<forall>s. suffix s input \<longrightarrow> matchURLAt s = None)"
    unfolding FindAllString_Nil_iff .
  have 7: "?created = map2 ?mk [0..<length ?urls] ?urls"
    by (simp add: CreateTasksFromText_eq Let_def)
  have 8: "\<forall>t \<in> set ?created. Status t = statusQueued \<and> Stage t = ''Parse URL''
         \<and> CreatedAt t = now \<and> UpdatedAt t = now"
    unfolding 7 by (auto dest!: set_zip_leftD simp: in_set_zip)
  have len: "length ?created = length ?urls"
    unfolding 7 by simp
  have "map ID (map2 ?mk [0..<length ?urls] ?urls) = map (newID env) [0..<length ?urls]"
    by (rule nth_equalityI) simp_all
  then have 9: "map ID ?created = map (newID env) [0..<length ?created]"
    unfolding len unfolding 7 .
  have s: "?store = a\<lparr>tasks := tasks a ++ map_of (rev (map (\<lambda>t. (ID t, t)) ?created)),
                       order := order a @ map ID ?created, queue := queue a @ map ID ?created\<rparr>"
    by (simp add: CreateTasksFromText_eq Let_def)
  have 10: "order ?store = order a @ map ID ?created"
    by (subst s) simp
  have 11: "queue ?store = queue a @ map ID ?created"
    by (subst s) simp
  have 12: "tasks ?store = tasks a ++ map_of (rev (map (\<lambda>t. (ID t, t)) ?created))"
    by (subst s) simp
  have "fst ` set (rev (map (\<lambda>t. (ID t, t)) ?created)) = set (map ID ?created)"
    by force
  then have d: "dom (map_of (rev (map (\<lambda>t. (ID t, t)) ?created))) = set (map ID ?created)"
    by (simp only: dom_map_of_conv_image_fst)
  have 13: "dom (tasks ?store) = dom (tasks a) \<union> set (map ID ?created)"
    unfolding 12 dom_map_add d by (rule Un_commute)
  have 14: "\<forall>k. k \<notin> set (map ID ?created) \<longrightarrow> tasks ?store k = tasks a k"
  proof (intro allI impI)
    fix k
    assume "k \<notin> set (map ID ?created)"
    then have "k \<notin> dom (map_of (rev (map (\<lambda>t. (ID t, t)) ?created)))"
      unfolding d .
    then show "tasks ?store k = tasks a k"
      unfolding 12 by (rule map_add_dom_app_simps)
  qed
  have 15: "distinct (map ID ?created)
        \<longrightarrow> (\<forall>t \<in> set ?created. tasks ?store (ID t) = Some t)"
  proof (intro impI ballI)
    fix t
    assume "distinct (map ID ?created)" "t \<in> set ?created"
    then have "map_of (rev (map (\<lambda>t. (ID t, t)) ?created)) (ID t) = Some t"
      by (rule map_of_rev_distinct)
    then show "tasks ?store (ID t) = Some t"
      unfolding 12 by (simp add: map_add_def)
  qed
  show ?thesis
    using 1 2 3 4 5 6 7 8 9 10 11 12 13 14 15 by blast
qed

theorem submit_one_task_per_locator_witness:
  "map URL (fst (CreateTasksFromText NewApp bareEnv 5
      ''grab this https://example.com/a and also https://example.com/a again''))
     = [''https://example.com/a'']
   \<and> sublist ''https://example.com/a''
        ''grab this https://example.com/a and also https://example.com/a again''
   \<and> fst (CreateTasksFromText NewApp bareEnv 5 ''no link'') = []
   \<and> fst (CreateTasksFromText NewApp bareEnv 5
      ''grab this https://example.com/a and also https://example.com/a again'')
     = [zeroTask\<lparr>ID := ''id0'', URL := ''https://example.com/a'', Title := ''Pending title'',
                 Status := statusQueued, Stage := ''Parse URL'', CreatedAt := 5, UpdatedAt := 5\<rparr>]
   \<and> order (snd (CreateTasksFromText NewApp bareEnv 5
      ''grab this https://example.com/a and also https://example.com/a again'')) = [''id0'']
   \<and> queue (snd (CreateTasksFromText NewApp bareEnv 5
      ''grab this https://example.com/a and also https://example.com/a again'')) = [''id0'']
   \<and> tasks (snd (CreateTasksFromText NewApp bareEnv 5
      ''grab this https://example.com/a and also https://example.com/a again'')) ''id0''
     = Some (zeroTask\<lparr>ID := ''id0'', URL := ''https://example.com/a'', Title := ''Pending title'',
                 Status := statusQueued, Stage := ''Parse URL'', CreatedAt := 5, UpdatedAt := 5\<rparr>)
   \<and> tasks (snd (CreateTasksFromText NewApp bareEnv 5
      ''grab this https://example.com/a and also https://example.com/a again'')) ''id1'' = None"
proof -
  let ?t = "''grab this https://example.com/a and also https://example.com/a again''"
  let ?task = "zeroTask\<lparr>ID := ''id0'', URL := ''https://example.com/a'', Title := ''Pending title'',
                 Status := statusQueued, Stage := ''Parse URL'', CreatedAt := 5, UpdatedAt := 5\<rparr>"
  let ?r = "CreateTasksFromText NewApp bareEnv 5 ?t"
  have m: "FindAllString ?t = [''https://example.com/a'', ''https://example.com/a'']"
    by (simp add: matchURLAt_def schemeOf_def isSpaceRE_def)
  have e: "extractURLs ?t = [''https://example.com/a'']"
    unfolding extractURLs_eq m by simp
  have i0: "newID bareEnv 0 = ''id0''"
    by code_simp
  note th = submit_one_task_per_locator [of NewApp bareEnv 5 ?t]
  from th have "map URL (fst ?r) = rev (remdups (rev (FindAllString ?t)))"
    by blast
  then have r1: "map URL (fst ?r) = [''https://example.com/a'']"
    unfolding m by simp
  have "''https://example.com/a'' \<in> set (FindAllString ?t)"
    unfolding m by simp
  with th have r2: "sublist ''https://example.com/a'' ?t"
    by blast
  have "\<forall>s. suffix s ''no link'' \<longrightarrow> matchURLAt s = None"
    by (auto simp: suffix_Cons matchURLAt_def schemeOf_def)
  with submit_one_task_per_locator [of NewApp bareEnv 5 "''no link''"]
  have r3: "fst (CreateTasksFromText NewApp bareEnv 5 ''no link'') = []"
    by blast
  from th have "fst ?r
        = map2 (\<lambda>i u. zeroTask\<lparr>ID := newID bareEnv i, URL := u,
                            Title := defaultTitleFromURL bareEnv u,
                            SourceHost := sourceHostFromURL bareEnv u, Status := statusQueued,
                            Stage := ''Parse URL'', CreatedAt := 5, UpdatedAt := 5\<rparr>)
            [0..<length (extractURLs ?t)] (extractURLs ?t)"
    by blast
  then have r4: "fst ?r = [?task]"
    unfolding e by (simp add: i0) (simp add: bareEnv_def zeroTask_def)
  from th have "order (snd ?r) = order NewApp @ map ID (fst ?r)"
    by blast
  then have r5: "order (snd ?r) = [''id0'']"
    unfolding r4 by (simp add: NewApp_def)
  from th have "queue (snd ?r) = queue NewApp @ map ID (fst ?r)"
    by blast
  then have r6: "queue (snd ?r) = [''id0'']"
    unfolding r4 by (simp add: NewApp_def)
  have "distinct (map ID (fst ?r))" "?task \<in> set (fst ?r)"
    unfolding r4 by simp_all
  with th have "tasks (snd ?r) (ID ?task) = Some ?task"
    by blast
  then have r7: "tasks (snd ?r) ''id0'' = Some ?task"
    by simp
  have "''id1'' \<notin> set (map ID (fst ?r))"
    unfolding r4 by simp
  with th have "tasks (snd ?r) ''id1'' = tasks NewApp ''id1''"
    by blast
  then have r8: "tasks (snd ?r) ''id1'' = None"
    by (simp add: NewApp_def)
  show ?thesis
    using r1 r2 r3 r4 r5 r6 r7 r8 by blast
qed


section \<open>Properties: the best format variant\<close>

lemma pickBestLoop_choice:
  "(snd (pickBestLoop fs (best, bs)) = bs \<and> fst (pickBestLoop fs (best, bs)) = best
      \<and> (\<forall>g \<in> set fs. formatScore g \<le> bs))
   \<or> (\<exists>pre f post. fs = pre @ f # post
         \<and> fst (pickBestLoop fs (best, bs)) = formatInfoOf f
         \<and> snd (pickBestLoop fs (best, bs)) = formatScore f
         \<and> bs < formatScore f
         \<and> (\<forall>g \<in> set pre. formatScore g < formatScore f)
         \<and> (\<forall>g \<in> set post. formatScore g \<le> formatScore f))"
proof (induction fs arbitrary: best bs)
  case Nil
  show ?case by simp
next
  case (Cons f fs)
  show ?case
  proof (cases "bs < formatScore f")
    case True
    from Cons [of "formatInfoOf f" "formatScore f"] show ?thesis
    proof
      assume "snd (pickBestLoop fs (formatInfoOf f, formatScore f)) = formatScore f
        \<and> fst (pickBestLoop fs (formatInfoOf f, formatScore f)) = formatInfoOf f
        \<and> (\<forall>g \<in> set fs. formatScore g \<le> formatScore f)"
      with True have "f # fs = [] @ f # fs
         \<and> fst (pickBestLoop (f # fs) (best, bs)) = formatInfoOf f
         \<and> snd (pickBestLoop (f # fs) (best, bs)) = formatScore f
         \<and> bs < formatScore f
         \<and> (\<forall>g \<in> set []. formatScore g < formatScore f)
         \<and> (\<forall>g \<in> set fs. formatScore g \<le> formatScore f)"
        by simp
      then show ?thesis by blast
    next
      assume "\<exists>pre f' post. fs = pre @ f' # post
         \<and> fst (pickBestLoop fs (formatInfoOf f, formatScore f)) = formatInfoOf f'
         \<and> snd (pickBestLoop fs (formatInfoOf f, formatScore f)) = formatScore f'
         \<and> formatScore f < formatScore f'
         \<and> (\<forall>g \<in> set pre. formatScore g < formatScore f')
         \<and> (\<forall>g \<in> set post. formatScore g \<le> formatScore f')"
      then obtain pre f' post where h: "fs = pre @ f' # post"
         "fst (pickBestLoop fs (formatInfoOf f, formatScore f)) = formatInfoOf f'"
         "snd (pickBestLoop fs (formatInfoOf f, formatScore f)) = formatScore f'"
         "formatScore f < formatScore f'"
         "\<forall>g \<in> set pre. formatScore g < formatScore f'"
         "\<forall>g \<in> set post. formatScore g \<le> formatScore f'"
        by blast
      with True have "f # fs = (f # pre) @ f' # post
         \<and> fst (pickBestLoop (f # fs) (best, bs)) = formatInfoOf f'
         \<and> snd (pickBestLoop (f # fs) (best, bs)) = formatScore f'
         \<and> bs < formatScore f'
         \<and> (\<forall>g \<in> set (f # pre). formatScore g < formatScore f')
         \<and> (\<forall>g \<in> set post. formatScore g \<le> formatScore f')"
        by simp
      then show ?thesis by blast
    qed
  next
    case False
    from Cons [of best bs] show ?thesis
    proof
      assume "snd (pickBestLoop fs (best, bs)) = bs \<and> fst (pickBestLoop fs (best, bs)) = best
        \<and> (\<forall>g \<in> set fs. formatScore g \<le> bs)"
      with False show ?thesis by simp
    next
      assume "\<exists>pre f' post. fs = pre @ f' # post
         \<and> fst (pickBestLoop fs (best, bs)) = formatInfoOf f'
         \<and> snd (pickBestLoop fs (best, bs)) = formatScore f'
         \<and> bs < formatScore f'
         \<and> (\<forall>g \<in> set pre. formatScore g < formatScore f')
         \<and> (\<forall>g \<in> set post. formatScore g \<le> formatScore f')"
      then obtain pre f' post where h: "fs = pre @ f' # post"
         "fst (pickBestLoop fs (best, bs)) = formatInfoOf f'"
         "snd (pickBestLoop fs (best, bs)) = formatScore f'"
         "bs < formatScore f'"
         "\<forall>g \<in> set pre. formatScore g < formatScore f'"
         "\<forall>g \<in> set post. formatScore g \<le> formatScore f'"
        by blast
      with False have "f # fs = (f # pre) @ f' # post
         \<and> fst (pickBestLoop (f # fs) (best, bs)) = formatInfoOf f'
         \<and> snd (pickBestLoop (f # fs) (best, bs)) = formatScore f'
         \<and> bs < formatScore f'
         \<and> (\<forall>g \<in> set (f # pre). formatScore g < formatScore f')
         \<and> (\<forall>g \<in> set post. formatScore g \<le> formatScore f')"
        by simp
      then show ?thesis by blast
    qed
  qed
qed

lemma metadataOf_fallback:
  assumes "floatToInt (Width_m info) = 0" "floatToInt (Height_m info) = 0" "Resolution_m info = []"
  shows "Width (metadataOf env u info) = Width_i (pickBestFormat (Formats_m info))"
    and "Height (metadataOf env u info) = Height_i (pickBestFormat (Formats_m info))"
  using assms by (simp_all add: metadataOf_def Let_def)

text \<open>
  C9, as the code has it. \<open>pickBestFormat\<close> gives every variant one score: its file size
  (\<open>filesize\<close>, else \<open>filesize_approx\<close>) when that is not zero, and otherwise the product
  of its width and height. It returns the first variant whose score is positive and
  largest, whether that score is a file size or a product, and the zero value when no
  variant has a positive score. When the description has neither width and height nor a
  resolution of its own, \<open>fetchMetadata\<close> takes width and height from that variant.
\<close>

theorem pickBestFormat_first_largest_score:
  "((pickBestFormat formats = zeroFormatInfo \<and> (\<forall>g \<in> set formats. formatScore g \<le> 0))
    \<or> (\<exists>pre f post. formats = pre @ f # post
          \<and> pickBestFormat formats = formatInfoOf f
          \<and> 0 < formatScore f
          \<and> (\<forall>g \<in> set pre. formatScore g < formatScore f)
          \<and> (\<forall>g \<in> set post. formatScore g \<le> formatScore f)))
   \<and> formatScore v =
       (if Filesize_i (formatInfoOf v) = 0
        then wrap64 (Width_i (formatInfoOf v) * Height_i (formatInfoOf v))
        else Filesize_i (formatInfoOf v))
   \<and> (floatToInt (Width_m info) = 0 \<and> floatToInt (Height_m info) = 0 \<and> Resolution_m info = [] \<longrightarrow>
        Width (metadataOf env u info) = Width_i (pickBestFormat (Formats_m info))
        \<and> Height (metadataOf env u info) = Height_i (pickBestFormat (Formats_m info)))"
proof (intro conjI impI)
  show "(pickBestFormat formats = zeroFormatInfo \<and> (\<forall>g \<in> set formats. formatScore g \<le> 0))
    \<or> (\<exists>pre f post. formats = pre @ f # post
          \<and> pickBestFormat formats = formatInfoOf f
          \<and> 0 < formatScore f
          \<and> (\<forall>g \<in> set pre. formatScore g < formatScore f)
          \<and> (\<forall>g \<in> set post. formatScore g \<le> formatScore f))"
    using pickBestLoop_choice [of formats zeroFormatInfo 0]
    unfolding pickBestFormat_def by blast
next
  show "formatScore v =
       (if Filesize_i (formatInfoOf v) = 0
        then wrap64 (Width_i (formatInfoOf v) * Height_i (formatInfoOf v))
        else Filesize_i (formatInfoOf v))"
    by (simp add: formatScore_def formatInfoOf_def Let_def)
next
  assume "floatToInt (Width_m info) = 0 \<and> floatToInt (Height_m info) = 0 \<and> Resolution_m info = []"
  then show "Width (metadataOf env u info) = Width_i (pickBestFormat (Formats_m info))"
    by (simp add: metadataOf_fallback)
next
  assume "floatToInt (Width_m info) = 0 \<and> floatToInt (Height_m info) = 0 \<and> Resolution_m info = []"
  then show "Height (metadataOf env u info) = Height_i (pickBestFormat (Formats_m info))"
    by (simp add: metadataOf_fallback)
qed

theorem pickBestFormat_first_largest_score_witness:
  "pickBestFormat
     [\<lparr>Resolution_f = [], Width_f = Some 640, Height_f = Some 360,
       Filesize_f = Some 5000000, FilesizeApprox_f = None\<rparr>,
      \<lparr>Resolution_f = [], Width_f = Some 1280, Height_f = Some 720,
       Filesize_f = None, FilesizeApprox_f = Some 7000000\<rparr>]
     = \<lparr>Resolution_i = [], Width_i = 1280, Height_i = 720, Filesize_i = 7000000\<rparr>
   \<and> Width (metadataOf bareEnv ''https://example.com/v''
        \<lparr>Title_m = ''clip'', Duration_m = None, Extractor_m = [], Resolution_m = [],
         Filesize_m = None, FilesizeApprox_m = None, Width_m = None, Height_m = None,
         Formats_m =
           [\<lparr>Resolution_f = [], Width_f = Some 640, Height_f = Some 360,
             Filesize_f = Some 5000000, FilesizeApprox_f = None\<rparr>,
            \<lparr>Resolution_f = [], Width_f = Some 1280, Height_f = Some 720,
             Filesize_f = None, FilesizeApprox_f = Some 7000000\<rparr>]\<rparr>) = 1280"
proof -
  define P where "P = \<lparr>Resolution_f = [], Width_f = Some 640, Height_f = Some 360,
       Filesize_f = Some 5000000, FilesizeApprox_f = None\<rparr>"
  define Q where "Q = \<lparr>Resolution_f = [], Width_f = Some 1280, Height_f = Some 720,
       Filesize_f = None, FilesizeApprox_f = Some 7000000\<rparr>"
  define info where "info = \<lparr>Title_m = ''clip'', Duration_m = None, Extractor_m = [],
       Resolution_m = [], Filesize_m = None, FilesizeApprox_m = None, Width_m = None,
       Height_m = None, Formats_m = [P, Q]\<rparr>"
  have sP: "formatScore P = 5000000" and sQ: "formatScore Q = 7000000"
    by (simp_all add: P_def Q_def formatScore_def pickFilesize_def)
  have iQ: "formatInfoOf Q = \<lparr>Resolution_i = [], Width_i = 1280, Height_i = 720, Filesize_i = 7000000\<rparr>"
    by (simp add: Q_def formatInfoOf_def formatDims_def floatToInt_def pickFilesize_def)
  note th = pickBestFormat_first_largest_score
    [where formats = "[P, Q]" and info = info and env = bareEnv and u = "''https://example.com/v''"]
  have "\<not> (\<forall>g \<in> set [P, Q]. formatScore g \<le> 0)"
    using sQ by simp
  with th obtain pre f post where d: "[P, Q] = pre @ f # post"
    and r: "pickBestFormat [P, Q] = formatInfoOf f"
    and a: "\<forall>g \<in> set post. formatScore g \<le> formatScore f"
    by blast
  from d have "(pre = [] \<and> f = P \<and> post = [Q]) \<or> (pre = [P] \<and> f = Q \<and> post = [])"
    by (auto simp: Cons_eq_append_conv)
  with a sP sQ have "f = Q"
    by auto
  with r iQ have r1: "pickBestFormat [P, Q]
      = \<lparr>Resolution_i = [], Width_i = 1280, Height_i = 720, Filesize_i = 7000000\<rparr>"
    by simp
  have "floatToInt (Width_m info) = 0 \<and> floatToInt (Height_m info) = 0 \<and> Resolution_m info = []"
    by (simp add: info_def floatToInt_def)
  with th have "Width (metadataOf bareEnv ''https://example.com/v'' info)
      = Width_i (pickBestFormat (Formats_m info))"
    by blast
  then have r2: "Width (metadataOf bareEnv ''https://example.com/v'' info) = 1280"
    using r1 by (simp add: info_def)
  show ?thesis
    using r1 r2 unfolding info_def P_def Q_def by simp
qed

text \<open>
  The claim as written fails where one variant reports a file size and another does not:
  a variant of 640x360 with 1500000 bytes loses against a variant without any file size
  whose resolution is 1920x1080, because 1920 * 1080 = 2073600 is the larger score.
\<close>

theorem pickBestFormat_mixed_counterexample:
  "pickBestFormat
     [\<lparr>Resolution_f = [], Width_f = Some 640, Height_f = Some 360,
       Filesize_f = Some 1500000, FilesizeApprox_f = None\<rparr>,
      \<lparr>Resolution_f = [], Width_f = Some 1920, Height_f = Some 1080,
       Filesize_f = None, FilesizeApprox_f = None\<rparr>]
   = \<lparr>Resolution_i = [], Width_i = 1920, Height_i = 1080, Filesize_i = 0\<rparr>"
  by code_simp

section \<open>Properties: the resume heuristic\<close>

lemma resumeWalk_signal:
  "(fst (resumeWalk c nt ds (found, recent)) \<or> snd (resumeWalk c nt ds (found, recent)))
   = (found \<or> recent
      \<or> (\<exists>d \<in> set ds. \<exists>name info. d = Entry name False info \<and> isPartialFile name
            \<and> (Contains (normalizeForMatch name) nt
                \<or> (\<exists>i. info = Some i \<and> c - minute < ModTime i))))"
proof (induction ds arbitrary: found recent)
  case Nil
  show ?case by simp
next
  case (Cons d ds)
  show ?case
  proof (cases d)
    case WalkError
    with Cons show ?thesis by simp
  next
    case (Entry name dir info)
    show ?thesis
    proof (cases "found \<or> dir \<or> \<not> isPartialFile name")
      case True
      then have "resumeWalk c nt (d # ds) (found, recent) = resumeWalk c nt ds (found, recent)"
        using Entry by auto
      moreover have "found \<or> \<not> (\<exists>name' info'. d = Entry name' False info' \<and> isPartialFile name'
            \<and> (Contains (normalizeForMatch name') nt
                \<or> (\<exists>i. info' = Some i \<and> c - minute < ModTime i)))"
        using True Entry by auto
      ultimately show ?thesis
        using Cons [of found recent] by auto
    next
      case False
      let ?f = "if Contains (normalizeForMatch name) nt then True else found"
      let ?r = "if (case info of None \<Rightarrow> False | Some i \<Rightarrow> c - 1 * minute < ModTime i)
                then True else recent"
      from False have "resumeWalk c nt (d # ds) (found, recent) = resumeWalk c nt ds (?f, ?r)"
        using Entry by simp
      moreover have "(?f \<or> ?r) = (found \<or> recent
          \<or> (\<exists>name' info'. d = Entry name' False info' \<and> isPartialFile name'
            \<and> (Contains (normalizeForMatch name') nt
                \<or> (\<exists>i. info' = Some i \<and> c - minute < ModTime i))))"
        using False Entry by (auto split: option.splits)
      ultimately show ?thesis
        using Cons [of ?f ?r] by (simp only: set_simps bex_simps) blast
    qed
  qed
qed

text \<open>
  Titles outside ASCII. The title U+212A (the Kelvin sign) normalizes to \<open>k\<close>, so a
  partial file \<open>k.mp4.part\<close> matches it by name; the title U+00A0 followed by
  \<open>Pending title\<close> is trimmed to the placeholder, so no file is looked for.
\<close>

lemma normalizeForMatch_kelvin:
  "normalizeForMatch [CHR 0xE2, CHR 0x84, CHR 0xAA] = ''k''
   \<and> normalizeForMatch [CHR 0xC4, CHR 0xB0] = ''i''
   \<and> normalizeForMatch [CHR 0xC3, CHR 0x84] = []
   \<and> normalizeForMatch ''My Clip-2'' = ''myclip2''"
  by code_simp

lemma resume_status_kelvin_title:
  "GetTaskResumeStatus
     (NewApp\<lparr>tasks := [''t1'' \<mapsto> zeroTask\<lparr>ID := ''t1'', Title := [CHR 0xE2, CHR 0x84, CHR 0xAA],
                                       Status := statusFailed,
                                       CreatedAt := 1000 * minute, UpdatedAt := 1001 * minute\<rparr>],
             order := [''t1'']\<rparr>)
     (bareEnv\<lparr>walkDir := (\<lambda>root. [Entry ''k.mp4.part'' False None])\<rparr>)
     (2000 * minute) ''t1'' = Inr ''ready''"
  by code_simp

lemma resume_status_nbsp_placeholder:
  "GetTaskResumeStatus
     (NewApp\<lparr>tasks := [''t1'' \<mapsto> zeroTask\<lparr>ID := ''t1'',
                                       Title := [CHR 0xC2, CHR 0xA0] @ ''Pending title'',
                                       Status := statusFailed,
                                       CreatedAt := 1000 * minute, UpdatedAt := 1001 * minute\<rparr>],
             order := [''t1'']\<rparr>)
     (bareEnv\<lparr>walkDir := (\<lambda>root. [Entry ''pendingtitle.mp4.part'' False None])\<rparr>)
     (2000 * minute) ''t1'' = Inr ''none''"
  by code_simp

text \<open>
  C5, as the code has it. For a stored task \<open>GetTaskResumeStatus\<close> answers, in this
  order: \<open>none\<close> when the task is Running and was updated less than 30 seconds ago;
  \<open>none\<close> when the home directory cannot be resolved; \<open>ready\<close> when the trimmed
  output path is an existing file, not a directory, whose size is below the recorded
  positive file size; \<open>none\<close> when the trimmed title is empty, is \<open>Pending title\<close>, or
  has an empty normalized form (none of its runes lowers to a letter \<open>a..z\<close> or a digit
  \<open>0..9\<close>); \<open>ready\<close> when the walk
  of the output directory visits a file with a partial-download marker whose normalized
  name contains the normalized title, or whose modification time is strictly later than
  one minute before the task's creation time; \<open>none\<close> otherwise.
\<close>

theorem resume_status_decision:
  assumes "tasks a tid = Some task"
  shows "GetTaskResumeStatus a env now tid = Inr
     (if Status task = statusRunning \<and> now - UpdatedAt task < 30 * second then ''none''
      else if userHomeDir env = None then ''none''
      else if TrimSpace (OutputPath task) \<noteq> []
              \<and> (\<exists>info. stat env (TrimSpace (OutputPath task)) = Some info \<and> \<not> IsDir info
                    \<and> 0 < Filesize task \<and> Size info < Filesize task)
      then ''ready''
      else if TrimSpace (Title task) = [] \<or> TrimSpace (Title task) = ''Pending title''
              \<or> normalizeForMatch (TrimSpace (Title task)) = []
      then ''none''
      else if (\<exists>outputDir. taskOutputDir env (CreatedAt task) = Some outputDir
                \<and> (\<exists>d \<in> set (walkDir env outputDir). \<exists>name info.
                      d = Entry name False info \<and> isPartialFile name
                      \<and> (Contains (normalizeForMatch name) (normalizeForMatch (TrimSpace (Title task)))
                          \<or> (\<exists>i. info = Some i \<and> CreatedAt task - minute < ModTime i))))
      then ''ready''
      else ''none'')"
proof (cases "Status task = statusRunning \<and> now - UpdatedAt task < 30 * second")
  case True
  with assms show ?thesis by (simp add: GetTaskResumeStatus_def withinGrace_def Let_def)
next
  case g: False
  show ?thesis
  proof (cases "userHomeDir env")
    case None
    with g assms show ?thesis
      by (simp add: GetTaskResumeStatus_def withinGrace_def Let_def taskOutputDir_def)
  next
    case (Some home)
    then obtain outputDir where od: "taskOutputDir env (CreatedAt task) = Some outputDir"
      by (simp add: taskOutputDir_def)
    let ?partial = "TrimSpace (OutputPath task) \<noteq> []
              \<and> (\<exists>info. stat env (TrimSpace (OutputPath task)) = Some info \<and> \<not> IsDir info
                    \<and> 0 < Filesize task \<and> Size info < Filesize task)"
    show ?thesis
    proof (cases ?partial)
      case True
      with g assms Some od show ?thesis
        by (auto simp: GetTaskResumeStatus_def withinGrace_def Let_def)
    next
      case p: False
      then have p': "\<not> (TrimSpace (OutputPath task) \<noteq> []
           \<and> (case stat env (TrimSpace (OutputPath task)) of None \<Rightarrow> False
               | Some info \<Rightarrow> \<not> IsDir info \<and> 0 < Filesize task \<and> Size info < Filesize task))"
        by (auto split: option.splits)
      show ?thesis
      proof (cases "TrimSpace (Title task) = [] \<or> TrimSpace (Title task) = ''Pending title''
              \<or> normalizeForMatch (TrimSpace (Title task)) = []")
        case True
        with g assms Some od p p' show ?thesis
          by (auto simp: GetTaskResumeStatus_def withinGrace_def Let_def)
      next
        case t: False
        let ?w = "resumeWalk (CreatedAt task) (normalizeForMatch (TrimSpace (Title task)))
                    (walkDir env outputDir) (False, False)"
        have res: "GetTaskResumeStatus a env now tid
            = Inr (if fst ?w \<or> snd ?w then ''ready'' else ''none'')"
          using g assms Some od p' t
          by (auto simp: GetTaskResumeStatus_def withinGrace_def Let_def split: prod.splits)
        show ?thesis
          unfolding res resumeWalk_signal using g Some od p t by auto
      qed
    qed
  qed
qed


theorem resume_status_decision_witness:
  "GetTaskResumeStatus
     (NewApp\<lparr>tasks := [''t1'' \<mapsto> zeroTask\<lparr>ID := ''t1'', Title := ''My Clip'', Status := statusFailed,
                                       CreatedAt := 1000 * minute, UpdatedAt := 1001 * minute\<rparr>],
             order := [''t1'']\<rparr>)
     (bareEnv\<lparr>walkDir := (\<lambda>root. [Entry ''My Clip.mp4.part'' False None])\<rparr>)
     (2000 * minute) ''t1'' = Inr ''ready''"
proof -
  define T where "T = zeroTask\<lparr>ID := ''t1'', Title := ''My Clip'', Status := statusFailed,
                                       CreatedAt := 1000 * minute, UpdatedAt := 1001 * minute\<rparr>"
  define A where "A = NewApp\<lparr>tasks := [''t1'' \<mapsto> T], order := [''t1'']\<rparr>"
  define E where "E = bareEnv\<lparr>walkDir := (\<lambda>root. [Entry ''My Clip.mp4.part'' False None])\<rparr>"
  have h: "tasks A ''t1'' = Some T" by (simp add: A_def)
  have c1: "\<not> (Status T = statusRunning \<and> 2000 * minute - UpdatedAt T < 30 * second)"
    by (simp add: T_def statusFailed_def statusRunning_def)
  have c2: "userHomeDir E \<noteq> None"
    by (simp add: E_def bareEnv_def)
  have c3: "TrimSpace (OutputPath T) = []"
    by (simp add: T_def zeroTask_def)
  have c4: "TrimSpace (Title T) = ''My Clip''"
    unfolding T_def by code_simp
  have c5: "normalizeForMatch ''My Clip'' = ''myclip''"
    by code_simp
  have c6: "isPartialFile ''My Clip.mp4.part''"
    by code_simp
  have c7: "Contains (normalizeForMatch ''My Clip.mp4.part'') ''myclip''"
    by code_simp
  have c8: "\<exists>outputDir. taskOutputDir E (CreatedAt T) = Some outputDir
                \<and> (\<exists>d \<in> set (walkDir E outputDir). \<exists>name info.
                      d = Entry name False info \<and> isPartialFile name
                      \<and> (Contains (normalizeForMatch name) (normalizeForMatch (TrimSpace (Title T)))
                          \<or> (\<exists>i. info = Some i \<and> CreatedAt T - minute < ModTime i)))"
    unfolding c4 c5 using c6 c7 by (simp add: taskOutputDir_def E_def bareEnv_def)
  have "GetTaskResumeStatus A E (2000 * minute) ''t1'' = Inr ''ready''"
    using resume_status_decision [OF h, of E "2000 * minute"] c1 c2 c8
    by (simp add: c3 c4 c5)
  then show ?thesis unfolding A_def T_def E_def .
qed


text \<open>
  The claim as written fails for a title that is not a placeholder but normalizes to the
  empty string, such as \<open>!!!\<close>: the code
  answers \<open>none\<close> although a partial-marker file exists in the output directory, its
  normalized name contains the (empty) normalized title, and it was modified no earlier
  than one minute before the task was created.
\<close>

theorem resume_status_unmatchable_title_counterexample:
  "GetTaskResumeStatus
     (NewApp\<lparr>tasks := [''t1'' \<mapsto> zeroTask\<lparr>ID := ''t1'', Title := ''!!!'', Status := statusFailed,
                                       CreatedAt := 1000 * minute, UpdatedAt := 1001 * minute\<rparr>],
             order := [''t1'']\<rparr>)
     (bareEnv\<lparr>walkDir := (\<lambda>root. [Entry ''clip.mp4.part'' False
                                     (Some \<lparr>IsDir = False, Size = 10, ModTime = 1000 * minute\<rparr>)])\<rparr>)
     (2000 * minute) ''t1'' = Inr ''none''
   \<and> isPartialFile ''clip.mp4.part''
   \<and> Contains (normalizeForMatch ''clip.mp4.part'') (normalizeForMatch ''!!!'')
   \<and> 1000 * minute - minute \<le> 1000 * minute"
  by code_simp


section \<open>Properties: import and export\<close>

lemma prepareItem_ID [simp]: "ID (prepareItem env ow t) = ID t"
  by (simp add: prepareItem_def resetDownloaded_def Let_def)

lemma prepareImport_eq:
  "prepareImport env ow raw =
     (if \<exists>t \<in> set raw. TrimSpace (ID t) = [] then Inl TaskIdRequired
      else Inr (map (prepareItem env ow) raw))"
  by (induction raw) auto

lemma replaceLoop_eq:
  "replaceLoop items (a, enq) =
     (a\<lparr>tasks := tasks a ++ map_of (rev (map (\<lambda>t. (ID t, t)) items)),
        order := order a @ map ID items\<rparr>,
      enq @ map ID (filter (\<lambda>t. Status t = statusQueued) items))"
proof (induction items arbitrary: a enq)
  case Nil
  show ?case by simp
next
  case (Cons item items)
  let ?a1 = "a\<lparr>tasks := (tasks a)(ID item \<mapsto> item), order := order a @ [ID item]\<rparr>"
  let ?e1 = "if Status item = statusQueued then enq @ [ID item] else enq"
  have m: "tasks ?a1 ++ map_of (rev (map (\<lambda>t. (ID t, t)) items))
      = tasks a ++ map_of (rev (map (\<lambda>t. (ID t, t)) (item # items)))"
    by (rule ext) (simp add: map_add_def split: option.splits)
  have "replaceLoop (item # items) (a, enq) = replaceLoop items (?a1, ?e1)"
    by simp
  also have "\<dots> = (?a1\<lparr>tasks := tasks ?a1 ++ map_of (rev (map (\<lambda>t. (ID t, t)) items)),
        order := order ?a1 @ map ID items\<rparr>,
      ?e1 @ map ID (filter (\<lambda>t. Status t = statusQueued) items))"
    by (rule Cons)
  also have "\<dots> = (a\<lparr>tasks := tasks a ++ map_of (rev (map (\<lambda>t. (ID t, t)) (item # items))),
        order := order a @ map ID (item # items)\<rparr>,
      enq @ map ID (filter (\<lambda>t. Status t = statusQueued) (item # items)))"
    unfolding m by simp
  finally show ?case .
qed

lemma snapshot_elems:
  "t \<in> set (snapshot m ids) \<Longrightarrow> \<exists>k \<in> set ids. m k = Some t"
  by (induction ids) (auto split: option.splits)

lemma map_of_rev_unique:
  assumes "\<forall>x \<in> set xs. \<forall>y \<in> set xs. ID x = ID y \<longrightarrow> x = y" "x \<in> set xs"
  shows "map_of (rev (map (\<lambda>t. (ID t, t)) xs)) (ID x) = Some x"
proof -
  have "ID x \<in> fst ` set (rev (map (\<lambda>t. (ID t, t)) xs))"
    using assms(2) by force
  then obtain y where y: "map_of (rev (map (\<lambda>t. (ID t, t)) xs)) (ID x) = Some y"
    by (metis domD dom_map_of_conv_image_fst)
  then have "(ID x, y) \<in> set (rev (map (\<lambda>t. (ID t, t)) xs))"
    by (rule map_of_SomeD)
  then have "y \<in> set xs" "ID y = ID x" by auto
  with assms have "y = x" by metis
  with y show ?thesis by simp
qed

lemma snapshot_of_own_ids:
  assumes "\<forall>x \<in> set xs. \<forall>y \<in> set xs. ID x = ID y \<longrightarrow> x = y" "set ys \<subseteq> set xs"
  shows "snapshot (map_of (rev (map (\<lambda>t. (ID t, t)) xs))) (map ID ys) = ys"
  using assms(2)
proof (induction ys)
  case Nil
  show ?case by simp
next
  case (Cons y ys)
  then have "map_of (rev (map (\<lambda>t. (ID t, t)) xs)) (ID y) = Some y"
    using map_of_rev_unique [OF assms(1)] by simp
  with Cons show ?case by simp
qed

lemma jsonString_ascii: "\<forall>c \<in> set s. byteIn 0x00 0x7F c \<Longrightarrow> jsonString s = s"
  by (simp add: jsonString_def jsonCopy_ascii)

lemma jsonTask_ID [simp]: "ID (jsonTask t) = jsonString (ID t)"
  by (simp add: jsonTask_def)

text \<open>
  What the round trip does to a string that is not well-formed UTF-8, and to an id that
  is blank only to \<open>unicode.IsSpace\<close>: the title \<open>a\<close> followed by the byte \<open>FF\<close>
  comes back with U+FFFD in place of that byte, and a record whose id is U+00A0 is
  refused.
\<close>

lemma export_import_replace_illformed_title:
  "map Title (ListTasks
      (NewApp\<lparr>tasks := [''x'' \<mapsto> zeroTask\<lparr>ID := ''x'', Title := [CHR ''a'', CHR 0xFF]\<rparr>],
              order := [''x'']\<rparr>)) = [[CHR ''a'', CHR 0xFF]]
   \<and> map Title (ListTasks (snd (ImportTasks
      (NewApp\<lparr>tasks := [''x'' \<mapsto> zeroTask\<lparr>ID := ''x'', Title := [CHR ''a'', CHR 0xFF]\<rparr>],
              order := [''x'']\<rparr>)
      bareEnv
      (ExportTasks
        (NewApp\<lparr>tasks := [''x'' \<mapsto> zeroTask\<lparr>ID := ''x'', Title := [CHR ''a'', CHR 0xFF]\<rparr>],
                order := [''x'']\<rparr>))
      ''replace'' False))) = [[CHR ''a'', CHR 0xEF, CHR 0xBF, CHR 0xBD]]"
  by code_simp

lemma import_nbsp_id_rejected:
  "fst (ImportTasks NewApp bareEnv (Records [zeroTask\<lparr>ID := [CHR 0xC2, CHR 0xA0]\<rparr>]) ''replace'' False)
     = Inl TaskIdRequired"
  by code_simp

text \<open>
  C4, as the code has it. In a store where every task is kept under its own id (all
  operations keep it so) and every listed id is well-formed UTF-8 and not blank,
  exporting and then importing the exported payload in mode \<open>replace\<close> without
  \<open>overwriteDownloaded\<close> succeeds and gives back the task list with the same ids in the
  same order. The fields of every task are those the JSON text carries, that is the
  stored ones with U+FFFD in place of every byte of a string that is not part of
  well-formed UTF-8, except that \<open>missingOutput\<close> is computed anew from the disk. The
  list is therefore identical when the strings of every task are well-formed UTF-8 and
  that flag already agrees with the disk.
\<close>

theorem export_import_replace_roundtrip:
  assumes inv: "\<forall>k t. tasks a k = Some t \<longrightarrow> ID t = k"
    and wellformed: "\<forall>t \<in> set (ListTasks a). jsonString (ID t) = ID t"
    and nonblank: "\<forall>t \<in> set (ListTasks a). TrimSpace (ID t) \<noteq> []"
  shows "fst (ImportTasks a env (ExportTasks a) ''replace'' False)
           = Inr (map (\<lambda>t. (jsonTask t)\<lparr>MissingOutput := outputMissing env (OutputPath (jsonTask t))\<rparr>)
                    (ListTasks a))
         \<and> ListTasks (snd (ImportTasks a env (ExportTasks a) ''replace'' False))
           = map (\<lambda>t. (jsonTask t)\<lparr>MissingOutput := outputMissing env (OutputPath (jsonTask t))\<rparr>)
               (ListTasks a)
         \<and> map ID (ListTasks (snd (ImportTasks a env (ExportTasks a) ''replace'' False)))
           = map ID (ListTasks a)
         \<and> ((\<forall>t \<in> set (ListTasks a).
                jsonTask t = t \<and> MissingOutput t = outputMissing env (OutputPath t))
            \<longrightarrow> ListTasks (snd (ImportTasks a env (ExportTasks a) ''replace'' False)) = ListTasks a)"
proof -
  let ?snap = "snapshot (tasks a) (order a)"
  let ?f = "\<lambda>t. (jsonTask t)\<lparr>MissingOutput := outputMissing env (OutputPath (jsonTask t))\<rparr>"
  let ?imp = "map ?f ?snap"
  have wf: "\<forall>t \<in> set ?snap. jsonString (ID t) = ID t"
    using wellformed by (simp add: ListTasks_def)
  have same: "\<forall>x \<in> set ?snap. \<forall>y \<in> set ?snap. ID x = ID y \<longrightarrow> x = y"
  proof (intro ballI impI)
    fix x y
    assume "x \<in> set ?snap" "y \<in> set ?snap" "ID x = ID y"
    then obtain k l where "tasks a k = Some x" "tasks a l = Some y"
      by (meson snapshot_elems)
    with inv \<open>ID x = ID y\<close> show "x = y" by (metis option.inject)
  qed
  have same': "\<forall>x \<in> set ?imp. \<forall>y \<in> set ?imp. ID x = ID y \<longrightarrow> x = y"
  proof (intro ballI impI)
    fix x y
    assume "x \<in> set ?imp" "y \<in> set ?imp" and e: "ID x = ID y"
    then obtain x0 y0 where x0: "x0 \<in> set ?snap" "x = ?f x0" and y0: "y0 \<in> set ?snap" "y = ?f y0"
      by auto
    from e x0 y0 wf have "ID x0 = ID y0" by simp
    with same x0 y0 have "x0 = y0" by blast
    with x0 y0 show "x = y" by simp
  qed
  have pi: "prepareItem env False = (\<lambda>t. t\<lparr>MissingOutput := outputMissing env (OutputPath t)\<rparr>)"
    by (simp add: prepareItem_def fun_eq_iff)
  have m: "map (prepareItem env False) (map jsonTask ?snap) = ?imp"
    by (simp add: pi)
  have "\<not> (\<exists>t \<in> set (map jsonTask ?snap). TrimSpace (ID t) = [])"
    using nonblank wf by (simp add: ListTasks_def)
  then have p: "prepareImport env False (map jsonTask ?snap) = Inr ?imp"
    unfolding prepareImport_eq m by simp
  have s: "snapshot (map_of (rev (map (\<lambda>t. (ID t, t)) ?imp))) (map ID ?imp) = ?imp"
    by (rule snapshot_of_own_ids [OF same' subset_refl])
  have "ImportTasks a env (ExportTasks a) ''replace'' False
      = (Inr ?imp, enqueueTasks
           (a\<lparr>tasks := map_of (rev (map (\<lambda>t. (ID t, t)) ?imp)), order := map ID ?imp\<rparr>)
           (map ID (filter (\<lambda>t. Status t = statusQueued) ?imp)))"
    by (simp add: ImportTasks_def ExportTasks_def p replaceLoop_eq s del: map_map)
  then have r: "fst (ImportTasks a env (ExportTasks a) ''replace'' False) = Inr ?imp"
    and l: "ListTasks (snd (ImportTasks a env (ExportTasks a) ''replace'' False)) = ?imp"
    using s by (simp_all add: ListTasks_def enqueueTasks_def del: map_map)
  have ids: "map ID ?imp = map ID ?snap"
    using wf by simp
  have same_list: "?imp = ?snap"
    if "\<forall>t \<in> set (ListTasks a). jsonTask t = t \<and> MissingOutput t = outputMissing env (OutputPath t)"
  proof -
    have "\<forall>t \<in> set ?snap. ?f t = t"
      using that by (simp add: ListTasks_def)
    then show ?thesis by (simp add: map_idI)
  qed
  show ?thesis
    unfolding r l using ids same_list by (simp add: ListTasks_def del: map_map)
qed

theorem export_import_replace_roundtrip_witness:
  "ListTasks (snd (ImportTasks
      (NewApp\<lparr>tasks := [''a'' \<mapsto> zeroTask\<lparr>ID := ''a'', Status := statusQueued\<rparr>,
                        ''b'' \<mapsto> zeroTask\<lparr>ID := ''b'', Status := statusFailed, UpdatedAt := 7\<rparr>],
              order := [''b'', ''a'']\<rparr>)
      bareEnv
      (ExportTasks
        (NewApp\<lparr>tasks := [''a'' \<mapsto> zeroTask\<lparr>ID := ''a'', Status := statusQueued\<rparr>,
                          ''b'' \<mapsto> zeroTask\<lparr>ID := ''b'', Status := statusFailed, UpdatedAt := 7\<rparr>],
                order := [''b'', ''a'']\<rparr>))
      ''replace'' False))
   = [zeroTask\<lparr>ID := ''b'', Status := statusFailed, UpdatedAt := 7\<rparr>,
      zeroTask\<lparr>ID := ''a'', Status := statusQueued\<rparr>]"
proof -
  define A where "A = NewApp\<lparr>tasks := [''a'' \<mapsto> zeroTask\<lparr>ID := ''a'', Status := statusQueued\<rparr>,
                        ''b'' \<mapsto> zeroTask\<lparr>ID := ''b'', Status := statusFailed, UpdatedAt := 7\<rparr>],
              order := [''b'', ''a'']\<rparr>"
  have l: "ListTasks A = [zeroTask\<lparr>ID := ''b'', Status := statusFailed, UpdatedAt := 7\<rparr>,
      zeroTask\<lparr>ID := ''a'', Status := statusQueued\<rparr>]"
    by (simp add: A_def ListTasks_def)
  have inv: "\<forall>k t. tasks A k = Some t \<longrightarrow> ID t = k"
    by (auto simp: A_def split: if_splits)
  have ja: "jsonString ''a'' = ''a''" and jb: "jsonString ''b'' = ''b''"
    and jq: "jsonString statusQueued = statusQueued"
    and jf: "jsonString statusFailed = statusFailed"
    by code_simp+
  have ta: "TrimSpace ''a'' = ''a''" and tb: "TrimSpace ''b'' = ''b''"
    by code_simp+
  have wellformed: "\<forall>t \<in> set (ListTasks A). jsonString (ID t) = ID t"
    unfolding l by (simp add: ja jb)
  have nonblank: "\<forall>t \<in> set (ListTasks A). TrimSpace (ID t) \<noteq> []"
    unfolding l by (simp add: ta tb)
  have same: "\<forall>t \<in> set (ListTasks A).
      jsonTask t = t \<and> MissingOutput t = outputMissing bareEnv (OutputPath t)"
    unfolding l by (simp add: jsonTask_def outputMissing_def zeroTask_def ja jb jq jf)
  have "ListTasks (snd (ImportTasks A bareEnv (ExportTasks A) ''replace'' False)) = ListTasks A"
    using export_import_replace_roundtrip [OF inv wellformed nonblank, of bareEnv] same by blast
  also note l
  finally show ?thesis unfolding A_def .
qed


text \<open>
  The claim as written fails for a task whose output file has disappeared since the
  download: the stored \<open>missingOutput\<close> is still false, and after the round trip it is
  true.
\<close>

theorem export_import_replace_missing_output_counterexample:
  "map MissingOutput (ListTasks
      (NewApp\<lparr>tasks := [''x'' \<mapsto> zeroTask\<lparr>ID := ''x'', Status := statusSuccess,
                                        OutputPath := ''/gone''\<rparr>],
              order := [''x'']\<rparr>)) = [False]
   \<and> map MissingOutput (ListTasks (snd (ImportTasks
      (NewApp\<lparr>tasks := [''x'' \<mapsto> zeroTask\<lparr>ID := ''x'', Status := statusSuccess,
                                        OutputPath := ''/gone''\<rparr>],
              order := [''x'']\<rparr>)
      bareEnv
      (ExportTasks
        (NewApp\<lparr>tasks := [''x'' \<mapsto> zeroTask\<lparr>ID := ''x'', Status := statusSuccess,
                                          OutputPath := ''/gone''\<rparr>],
                order := [''x'']\<rparr>))
      ''replace'' False))) = [True]"
  by code_simp


section \<open>Properties: merge import\<close>

lemma mergeLoop_append:
  "mergeLoop (xs @ ys) acc = mergeLoop ys (mergeLoop xs acc)"
proof (induction xs arbitrary: acc)
  case Nil
  show ?case by simp
next
  case (Cons x xs)
  obtain a e where acc: "acc = (a, e)" by (cases acc)
  show ?case
    unfolding acc by (simp add: Cons split: option.splits)
qed

lemma mergeLoop_other:
  assumes "\<forall>r \<in> set items. ID r \<noteq> k"
  shows "tasks (fst (mergeLoop items (a, e))) k = tasks a k"
  using assms
proof (induction items arbitrary: a e)
  case Nil
  show ?case by simp
next
  case (Cons item items)
  then show ?case by (auto split: option.splits)
qed

lemma mergeLoop_monotone:
  assumes "tasks a k = Some T"
  shows "\<exists>T'. tasks (fst (mergeLoop items (a, e))) k = Some T'
           \<and> UpdatedAt T \<le> UpdatedAt T' \<and> CreatedAt T' = CreatedAt T"
  using assms
proof (induction items arbitrary: a e T)
  case Nil
  then show ?case by simp
next
  case (Cons item items)
  show ?case
  proof (cases "tasks a (ID item)")
    case None
    let ?a1 = "a\<lparr>tasks := (tasks a)(ID item \<mapsto> item), order := order a @ [ID item]\<rparr>"
    from None Cons.prems have "tasks ?a1 k = Some T" by auto
    from Cons.IH [OF this] None show ?thesis by simp
  next
    case (Some existing)
    show ?thesis
    proof (cases "UpdatedAt existing < UpdatedAt item")
      case False
      with Some Cons.IH [OF Cons.prems] show ?thesis by simp
    next
      case True
      let ?a1 = "a\<lparr>tasks := (tasks a)(ID item \<mapsto> item\<lparr>CreatedAt := CreatedAt existing\<rparr>)\<rparr>"
      show ?thesis
      proof (cases "ID item = k")
        case k: True
        with Some Cons.prems have ex: "existing = T" by simp
        have "tasks ?a1 k = Some (item\<lparr>CreatedAt := CreatedAt existing\<rparr>)"
          using k by simp
        from Cons.IH [OF this, of e] obtain T' where
          "tasks (fst (mergeLoop items (?a1, e))) k = Some T'"
          "UpdatedAt item \<le> UpdatedAt T'" "CreatedAt T' = CreatedAt existing"
          by auto
        with Some True ex show ?thesis by auto
      next
        case False
        with Cons.prems have "tasks ?a1 k = Some T" by simp
        from Cons.IH [OF this, of e] Some True show ?thesis by simp
      qed
    qed
  qed
qed

lemma mergeLoop_final:
  assumes "tasks a k = Some S"
  shows "(tasks (fst (mergeLoop items (a, e))) k = Some S
           \<and> (\<forall>r \<in> set items. ID r = k \<longrightarrow> UpdatedAt r \<le> UpdatedAt S))
         \<or> (\<exists>r \<in> set items. ID r = k \<and> UpdatedAt S < UpdatedAt r
               \<and> tasks (fst (mergeLoop items (a, e))) k = Some (r\<lparr>CreatedAt := CreatedAt S\<rparr>)
               \<and> (\<forall>r' \<in> set items. ID r' = k \<longrightarrow> UpdatedAt r' \<le> UpdatedAt r))"
  using assms
proof (induction items arbitrary: a e S)
  case Nil
  then show ?case by simp
next
  case (Cons item items)
  show ?case
  proof (cases "ID item = k")
    case other: False
    obtain a1 e1 where s: "mergeLoop [item] (a, e) = (a1, e1)"
      by (cases "mergeLoop [item] (a, e)")
    have k1: "tasks a1 k = Some S"
      using mergeLoop_other [of "[item]" k a e] other s Cons.prems by simp
    have u: "mergeLoop (item # items) (a, e) = mergeLoop items (a1, e1)"
      using mergeLoop_append [of "[item]" items "(a, e)"] s by simp
    from Cons.IH [OF k1, of e1] other show ?thesis
      unfolding u by auto
  next
    case same: True
    show ?thesis
    proof (cases "UpdatedAt S < UpdatedAt item")
      case False
      then have u: "mergeLoop (item # items) (a, e) = mergeLoop items (a, e)"
        using same Cons.prems by simp
      from Cons.IH [OF Cons.prems, of e] False show ?thesis
        unfolding u by auto
    next
      case True
      let ?S1 = "item\<lparr>CreatedAt := CreatedAt S\<rparr>"
      let ?a1 = "a\<lparr>tasks := (tasks a)(ID item \<mapsto> ?S1)\<rparr>"
      have u: "mergeLoop (item # items) (a, e) = mergeLoop items (?a1, e)"
        using same Cons.prems True by simp
      have k1: "tasks ?a1 k = Some ?S1"
        using same by simp
      from Cons.IH [OF k1, of e] show ?thesis
      proof
        assume "tasks (fst (mergeLoop items (?a1, e))) k = Some ?S1
           \<and> (\<forall>r \<in> set items. ID r = k \<longrightarrow> UpdatedAt r \<le> UpdatedAt ?S1)"
        with True same have "item \<in> set (item # items) \<and> ID item = k \<and> UpdatedAt S < UpdatedAt item
           \<and> tasks (fst (mergeLoop (item # items) (a, e))) k = Some (item\<lparr>CreatedAt := CreatedAt S\<rparr>)
           \<and> (\<forall>r' \<in> set (item # items). ID r' = k \<longrightarrow> UpdatedAt r' \<le> UpdatedAt item)"
          unfolding u by simp
        then show ?thesis by blast
      next
        assume "\<exists>r \<in> set items. ID r = k \<and> UpdatedAt ?S1 < UpdatedAt r
               \<and> tasks (fst (mergeLoop items (?a1, e))) k = Some (r\<lparr>CreatedAt := CreatedAt ?S1\<rparr>)
               \<and> (\<forall>r' \<in> set items. ID r' = k \<longrightarrow> UpdatedAt r' \<le> UpdatedAt r)"
        then obtain r where r: "r \<in> set items" "ID r = k" "UpdatedAt ?S1 < UpdatedAt r"
            "tasks (fst (mergeLoop items (?a1, e))) k = Some (r\<lparr>CreatedAt := CreatedAt ?S1\<rparr>)"
            "\<forall>r' \<in> set items. ID r' = k \<longrightarrow> UpdatedAt r' \<le> UpdatedAt r"
          by blast
        with True have "r \<in> set (item # items) \<and> ID r = k \<and> UpdatedAt S < UpdatedAt r
           \<and> tasks (fst (mergeLoop (item # items) (a, e))) k = Some (r\<lparr>CreatedAt := CreatedAt S\<rparr>)
           \<and> (\<forall>r' \<in> set (item # items). ID r' = k \<longrightarrow> UpdatedAt r' \<le> UpdatedAt r)"
          unfolding u by simp
        then show ?thesis by blast
      qed
    qed
  qed
qed

lemma firsts_filter:
  "rev (remdups (rev (filter Q xs))) = filter Q (rev (remdups (rev xs)))"
  by (simp add: rev_filter remdups_filter)

lemma mergeLoop_order:
  "order (fst (mergeLoop items (a, e)))
     = order a @ rev (remdups (rev (filter (\<lambda>k. tasks a k = None) (map ID items))))"
proof (induction items arbitrary: a e)
  case Nil
  show ?case by simp
next
  case (Cons item items)
  show ?case
  proof (cases "tasks a (ID item)")
    case None
    let ?a1 = "a\<lparr>tasks := (tasks a)(ID item \<mapsto> item), order := order a @ [ID item]\<rparr>"
    let ?e1 = "if Status item = statusQueued then e @ [ID item] else e"
    have u: "mergeLoop (item # items) (a, e) = mergeLoop items (?a1, ?e1)"
      using None by simp
    have f: "filter (\<lambda>k. tasks ?a1 k = None) (map ID items)
        = filter (\<lambda>k. k \<noteq> ID item) (filter (\<lambda>k. tasks a k = None) (map ID items))"
      by (auto intro: filter_cong)
    have "order (fst (mergeLoop items (?a1, ?e1)))
        = (order a @ [ID item])
          @ filter (\<lambda>k. k \<noteq> ID item)
              (rev (remdups (rev (filter (\<lambda>k. tasks a k = None) (map ID items)))))"
      unfolding Cons [of ?a1 ?e1] f firsts_filter [of "\<lambda>k. k \<noteq> ID item"] by simp
    also have "\<dots> = order a
          @ rev (remdups (rev (filter (\<lambda>k. tasks a k = None) (map ID (item # items)))))"
      using None by (simp add: remdups_snoc rev_filter)
    finally show ?thesis unfolding u .
  next
    case (Some existing)
    let ?a1 = "if UpdatedAt existing < UpdatedAt item
               then a\<lparr>tasks := (tasks a)(ID item \<mapsto> item\<lparr>CreatedAt := CreatedAt existing\<rparr>)\<rparr>
               else a"
    have u: "mergeLoop (item # items) (a, e) = mergeLoop items (?a1, e)"
      using Some by simp
    have f: "filter (\<lambda>k. tasks ?a1 k = None) (map ID items)
        = filter (\<lambda>k. tasks a k = None) (map ID items)"
      using Some by (auto intro: filter_cong)
    have o: "order ?a1 = order a"
      by simp
    show ?thesis
      unfolding u Cons [of ?a1 e] f o using Some by simp
  qed
qed

lemma mergeLoop_enqueued:
  "set (snd (mergeLoop items (a, e)))
     \<subseteq> set e \<union> {ID r | r. r \<in> set items \<and> Status r = statusQueued \<and> tasks a (ID r) = None}"
proof (induction items arbitrary: a e)
  case Nil
  show ?case by simp
next
  case (Cons item items)
  show ?case
  proof (cases "tasks a (ID item)")
    case None
    let ?a1 = "a\<lparr>tasks := (tasks a)(ID item \<mapsto> item), order := order a @ [ID item]\<rparr>"
    let ?e1 = "if Status item = statusQueued then e @ [ID item] else e"
    have u: "mergeLoop (item # items) (a, e) = mergeLoop items (?a1, ?e1)"
      using None by simp
    have "{ID r | r. r \<in> set items \<and> Status r = statusQueued \<and> tasks ?a1 (ID r) = None}
        \<subseteq> {ID r | r. r \<in> set (item # items) \<and> Status r = statusQueued \<and> tasks a (ID r) = None}"
      by (auto split: if_splits)
    moreover have "set ?e1
        \<subseteq> set e \<union> {ID r | r. r \<in> set (item # items) \<and> Status r = statusQueued \<and> tasks a (ID r) = None}"
      using None by auto
    ultimately show ?thesis
      unfolding u using Cons [of ?a1 ?e1] by blast
  next
    case (Some existing)
    let ?a1 = "if UpdatedAt existing < UpdatedAt item
               then a\<lparr>tasks := (tasks a)(ID item \<mapsto> item\<lparr>CreatedAt := CreatedAt existing\<rparr>)\<rparr>
               else a"
    have u: "mergeLoop (item # items) (a, e) = mergeLoop items (?a1, e)"
      using Some by simp
    have "{ID r | r. r \<in> set items \<and> Status r = statusQueued \<and> tasks ?a1 (ID r) = None}
        \<subseteq> {ID r | r. r \<in> set (item # items) \<and> Status r = statusQueued \<and> tasks a (ID r) = None}"
      by (auto split: if_splits)
    then show ?thesis
      unfolding u using Cons [of ?a1 e] by blast
  qed
qed

text \<open>
  C3. Merge-mode import never regresses a task. The incoming records are those of the
  payload after the first loop of \<open>ImportTasks\<close> (\<open>prepareItem\<close>), merged in payload
  order. For a task \<open>T\<close> stored under an id before the import: when no incoming record
  with that id is newer than \<open>T\<close> (\<open>updatedAt(T') \<le> updatedAt(T)\<close> for each), the
  stored record remains \<open>T\<close>; when one is strictly newer, the stored record becomes an
  incoming record \<open>T'\<close> with that id, strictly newer than \<open>T\<close> and not older than any
  other incoming record with that id, except that the \<open>createdAt\<close> of \<open>T\<close> is kept;
  in every case \<open>updatedAt\<close> does not decrease and \<open>createdAt\<close> does not change. The ids
  not stored before are appended to \<open>order\<close> in the order of their first appearance,
  and only ids of records that were not stored before and are Queued are enqueued. The last
  part states the same record by record: \<open>a1\<close> is the store when \<open>item\<close> is reached
  and \<open>a2\<close> the store after it.
\<close>

theorem merge_import_never_regresses:
  assumes p: "prepareImport env ow raw = Inr imported"
    and m: "mergeLoop imported (a, []) = (a', e')"
  shows "imported = map (prepareItem env ow) raw
    \<and> ImportTasks a env (Records raw) ''merge'' ow = (Inr (ListTasks a'), enqueueTasks a' e')
    \<and> (\<forall>k T. tasks a k = Some T \<and> (\<forall>r \<in> set imported. ID r = k \<longrightarrow> UpdatedAt r \<le> UpdatedAt T) \<longrightarrow>
          tasks a' k = Some T)
    \<and> (\<forall>k T. tasks a k = Some T \<and> (\<exists>r \<in> set imported. ID r = k \<and> UpdatedAt T < UpdatedAt r) \<longrightarrow>
          (\<exists>r \<in> set imported. ID r = k \<and> UpdatedAt T < UpdatedAt r
             \<and> tasks a' k = Some (r\<lparr>CreatedAt := CreatedAt T\<rparr>)
             \<and> (\<forall>r' \<in> set imported. ID r' = k \<longrightarrow> UpdatedAt r' \<le> UpdatedAt r)))
    \<and> (\<forall>k T. tasks a k = Some T \<longrightarrow>
          (\<exists>T'. tasks a' k = Some T' \<and> UpdatedAt T \<le> UpdatedAt T' \<and> CreatedAt T' = CreatedAt T))
    \<and> order a' = order a @ rev (remdups (rev (filter (\<lambda>k. tasks a k = None) (map ID imported))))
    \<and> set e' \<subseteq> {ID r | r. r \<in> set imported \<and> Status r = statusQueued \<and> tasks a (ID r) = None}
    \<and> (\<forall>pre item post a1 e1 a2 e2.
          imported = pre @ item # post \<and> mergeLoop pre (a, []) = (a1, e1)
          \<and> mergeLoop (pre @ [item]) (a, []) = (a2, e2) \<longrightarrow>
          (case tasks a1 (ID item) of
             Some T \<Rightarrow>
               if UpdatedAt item \<le> UpdatedAt T then a2 = a1 \<and> e2 = e1
               else a2 = a1\<lparr>tasks := (tasks a1)(ID item \<mapsto> item\<lparr>CreatedAt := CreatedAt T\<rparr>)\<rparr>
                    \<and> e2 = e1
           | None \<Rightarrow>
               a2 = a1\<lparr>tasks := (tasks a1)(ID item \<mapsto> item), order := order a1 @ [ID item]\<rparr>
               \<and> e2 = (if Status item = statusQueued then e1 @ [ID item] else e1)))"
proof -
  have 0: "imported = map (prepareItem env ow) raw"
    using p by (simp add: prepareImport_eq split: if_splits)
  have 1: "ImportTasks a env (Records raw) ''merge'' ow = (Inr (ListTasks a'), enqueueTasks a' e')"
    using p m by (simp add: ImportTasks_def ListTasks_def)
  have a': "a' = fst (mergeLoop imported (a, []))" and e': "e' = snd (mergeLoop imported (a, []))"
    using m by simp_all
  have 2: "\<forall>k T. tasks a k = Some T \<and> (\<forall>r \<in> set imported. ID r = k \<longrightarrow> UpdatedAt r \<le> UpdatedAt T) \<longrightarrow>
          tasks a' k = Some T"
  proof (intro allI impI)
    fix k T
    assume h: "tasks a k = Some T \<and> (\<forall>r \<in> set imported. ID r = k \<longrightarrow> UpdatedAt r \<le> UpdatedAt T)"
    with mergeLoop_final [of a k T imported "[]"] show "tasks a' k = Some T"
      unfolding a' by fastforce
  qed
  have 3: "\<forall>k T. tasks a k = Some T \<and> (\<exists>r \<in> set imported. ID r = k \<and> UpdatedAt T < UpdatedAt r) \<longrightarrow>
          (\<exists>r \<in> set imported. ID r = k \<and> UpdatedAt T < UpdatedAt r
             \<and> tasks a' k = Some (r\<lparr>CreatedAt := CreatedAt T\<rparr>)
             \<and> (\<forall>r' \<in> set imported. ID r' = k \<longrightarrow> UpdatedAt r' \<le> UpdatedAt r))"
  proof (intro allI impI)
    fix k T
    assume h: "tasks a k = Some T \<and> (\<exists>r \<in> set imported. ID r = k \<and> UpdatedAt T < UpdatedAt r)"
    then have "\<not> (\<forall>r \<in> set imported. ID r = k \<longrightarrow> UpdatedAt r \<le> UpdatedAt T)"
      by fastforce
    with h mergeLoop_final [of a k T imported "[]"]
    show "\<exists>r \<in> set imported. ID r = k \<and> UpdatedAt T < UpdatedAt r
             \<and> tasks a' k = Some (r\<lparr>CreatedAt := CreatedAt T\<rparr>)
             \<and> (\<forall>r' \<in> set imported. ID r' = k \<longrightarrow> UpdatedAt r' \<le> UpdatedAt r)"
      unfolding a' by blast
  qed
  have 4: "\<forall>k T. tasks a k = Some T \<longrightarrow>
          (\<exists>T'. tasks a' k = Some T' \<and> UpdatedAt T \<le> UpdatedAt T' \<and> CreatedAt T' = CreatedAt T)"
    unfolding a' using mergeLoop_monotone by blast
  have 5: "order a' = order a @ rev (remdups (rev (filter (\<lambda>k. tasks a k = None) (map ID imported))))"
    unfolding a' by (rule mergeLoop_order)
  have 6: "set e' \<subseteq> {ID r | r. r \<in> set imported \<and> Status r = statusQueued \<and> tasks a (ID r) = None}"
    unfolding e' using mergeLoop_enqueued [of imported a "[]"] by simp
  have 7: "\<forall>pre item post a1 e1 a2 e2.
          imported = pre @ item # post \<and> mergeLoop pre (a, []) = (a1, e1)
          \<and> mergeLoop (pre @ [item]) (a, []) = (a2, e2) \<longrightarrow>
          (case tasks a1 (ID item) of
             Some T \<Rightarrow>
               if UpdatedAt item \<le> UpdatedAt T then a2 = a1 \<and> e2 = e1
               else a2 = a1\<lparr>tasks := (tasks a1)(ID item \<mapsto> item\<lparr>CreatedAt := CreatedAt T\<rparr>)\<rparr>
                    \<and> e2 = e1
           | None \<Rightarrow>
               a2 = a1\<lparr>tasks := (tasks a1)(ID item \<mapsto> item), order := order a1 @ [ID item]\<rparr>
               \<and> e2 = (if Status item = statusQueued then e1 @ [ID item] else e1))"
  proof (intro allI impI)
    fix pre item post a1 e1 a2 e2
    assume h: "imported = pre @ item # post \<and> mergeLoop pre (a, []) = (a1, e1)
          \<and> mergeLoop (pre @ [item]) (a, []) = (a2, e2)"
    then have "mergeLoop [item] (a1, e1) = (a2, e2)"
      using mergeLoop_append [of pre "[item]" "(a, [])"] by metis
    then show "case tasks a1 (ID item) of
             Some T \<Rightarrow>
               if UpdatedAt item \<le> UpdatedAt T then a2 = a1 \<and> e2 = e1
               else a2 = a1\<lparr>tasks := (tasks a1)(ID item \<mapsto> item\<lparr>CreatedAt := CreatedAt T\<rparr>)\<rparr>
                    \<and> e2 = e1
           | None \<Rightarrow>
               a2 = a1\<lparr>tasks := (tasks a1)(ID item \<mapsto> item), order := order a1 @ [ID item]\<rparr>
               \<and> e2 = (if Status item = statusQueued then e1 @ [ID item] else e1)"
      by (auto split: option.splits)
  qed
  show ?thesis
    using 0 1 2 3 4 5 6 7 by blast
qed

theorem merge_import_never_regresses_witness:
  "tasks (snd (ImportTasks
      (NewApp\<lparr>tasks := [''x'' \<mapsto> zeroTask\<lparr>ID := ''x'', Status := statusFailed, CreatedAt := 1,
                                        UpdatedAt := 5\<rparr>],
              order := [''x'']\<rparr>)
      bareEnv
      (Records [zeroTask\<lparr>ID := ''x'', Status := statusQueued, CreatedAt := 2, UpdatedAt := 3\<rparr>,
                zeroTask\<lparr>ID := ''y'', Status := statusQueued, CreatedAt := 2, UpdatedAt := 3\<rparr>])
      ''merge'' False)) ''x''
     = Some (zeroTask\<lparr>ID := ''x'', Status := statusFailed, CreatedAt := 1, UpdatedAt := 5\<rparr>)
   \<and> order (snd (ImportTasks
      (NewApp\<lparr>tasks := [''x'' \<mapsto> zeroTask\<lparr>ID := ''x'', Status := statusFailed, CreatedAt := 1,
                                        UpdatedAt := 5\<rparr>],
              order := [''x'']\<rparr>)
      bareEnv
      (Records [zeroTask\<lparr>ID := ''x'', Status := statusQueued, CreatedAt := 2, UpdatedAt := 3\<rparr>,
                zeroTask\<lparr>ID := ''y'', Status := statusQueued, CreatedAt := 2, UpdatedAt := 3\<rparr>])
      ''merge'' False)) = [''x'', ''y'']
   \<and> tasks (snd (ImportTasks
      (NewApp\<lparr>tasks := [''x'' \<mapsto> zeroTask\<lparr>ID := ''x'', Status := statusFailed, CreatedAt := 1,
                                        UpdatedAt := 5\<rparr>],
              order := [''x'']\<rparr>)
      bareEnv
      (Records [zeroTask\<lparr>ID := ''x'', Status := statusQueued, CreatedAt := 2, UpdatedAt := 9\<rparr>])
      ''merge'' False)) ''x''
     = Some (zeroTask\<lparr>ID := ''x'', Status := statusQueued, CreatedAt := 1, UpdatedAt := 9\<rparr>)"
proof -
  define T where "T = zeroTask\<lparr>ID := ''x'', Status := statusFailed, CreatedAt := 1, UpdatedAt := 5\<rparr>"
  define A where "A = NewApp\<lparr>tasks := [''x'' \<mapsto> T], order := [''x'']\<rparr>"
  define x3 where "x3 = zeroTask\<lparr>ID := ''x'', Status := statusQueued, CreatedAt := 2, UpdatedAt := 3\<rparr>"
  define y3 where "y3 = zeroTask\<lparr>ID := ''y'', Status := statusQueued, CreatedAt := 2, UpdatedAt := 3\<rparr>"
  define x9 where "x9 = zeroTask\<lparr>ID := ''x'', Status := statusQueued, CreatedAt := 2, UpdatedAt := 9\<rparr>"
  have pi: "prepareItem bareEnv False x3 = x3" "prepareItem bareEnv False y3 = y3"
    "prepareItem bareEnv False x9 = x9"
    by (simp_all add: prepareItem_def outputMissing_def x3_def y3_def x9_def zeroTask_def)
  have nb: "TrimSpace ''x'' \<noteq> []" "TrimSpace ''y'' \<noteq> []"
    by (simp_all add: TrimSpace_x TrimSpace_y)
  have hT: "tasks A ''x'' = Some T"
    by (simp add: A_def)
  have ids: "ID x3 = ''x''" "ID y3 = ''y''" "ID x9 = ''x''" "UpdatedAt x3 = 3" "UpdatedAt x9 = 9"
    "UpdatedAt T = 5" "CreatedAt T = 1"
    by (simp_all add: x3_def y3_def x9_def T_def)
  have p1: "prepareImport bareEnv False [x3, y3] = Inr [x3, y3]"
    using nb by (simp add: pi ids)
  obtain a1 e1 where m1: "mergeLoop [x3, y3] (A, []) = (a1, e1)"
    by (cases "mergeLoop [x3, y3] (A, [])")
  note th1 = merge_import_never_regresses [OF p1 m1]
  have "\<forall>r \<in> set [x3, y3]. ID r = ''x'' \<longrightarrow> UpdatedAt r \<le> UpdatedAt T"
    by (simp add: ids)
  with th1 hT have "tasks a1 ''x'' = Some T"
    by blast
  moreover from th1 have i1: "ImportTasks A bareEnv (Records [x3, y3]) ''merge'' False
      = (Inr (ListTasks a1), enqueueTasks a1 e1)"
    by blast
  ultimately have r1: "tasks (snd (ImportTasks A bareEnv (Records [x3, y3]) ''merge'' False)) ''x'' = Some T"
    by (simp add: enqueueTasks_def)
  from th1 have "order a1
      = order A @ rev (remdups (rev (filter (\<lambda>k. tasks A k = None) (map ID [x3, y3]))))"
    by blast
  then have "order a1 = [''x'', ''y'']"
    by (simp add: A_def ids NewApp_def)
  with i1 have r2: "order (snd (ImportTasks A bareEnv (Records [x3, y3]) ''merge'' False)) = [''x'', ''y'']"
    by (simp add: enqueueTasks_def)
  have p2: "prepareImport bareEnv False [x9] = Inr [x9]"
    using nb by (simp add: pi ids)
  obtain a2 e2 where m2: "mergeLoop [x9] (A, []) = (a2, e2)"
    by (cases "mergeLoop [x9] (A, [])")
  note th2 = merge_import_never_regresses [OF p2 m2]
  have "\<exists>r \<in> set [x9]. ID r = ''x'' \<and> UpdatedAt T < UpdatedAt r"
    by (simp add: ids)
  with th2 hT have "\<exists>r \<in> set [x9]. ID r = ''x'' \<and> UpdatedAt T < UpdatedAt r
             \<and> tasks a2 ''x'' = Some (r\<lparr>CreatedAt := CreatedAt T\<rparr>)
             \<and> (\<forall>r' \<in> set [x9]. ID r' = ''x'' \<longrightarrow> UpdatedAt r' \<le> UpdatedAt r)"
    by blast
  then have "tasks a2 ''x'' = Some (x9\<lparr>CreatedAt := CreatedAt T\<rparr>)"
    by simp
  moreover from th2 have "ImportTasks A bareEnv (Records [x9]) ''merge'' False
      = (Inr (ListTasks a2), enqueueTasks a2 e2)"
    by blast
  ultimately have r3: "tasks (snd (ImportTasks A bareEnv (Records [x9]) ''merge'' False)) ''x''
      = Some (x9\<lparr>CreatedAt := CreatedAt T\<rparr>)"
    by (simp add: enqueueTasks_def)
  show ?thesis
    using r1 r2 r3 unfolding A_def T_def x3_def y3_def x9_def by simp
qed


section \<open>Properties: import with \<open>overwriteDownloaded\<close>\<close>

lemma prepareItem_idem:
  "prepareItem env False (prepareItem env ow r) = prepareItem env ow r"
  by (simp add: prepareItem_def resetDownloaded_def Let_def)

lemma prepareItem_overwrite:
  "MissingOutput (prepareItem env True r) = outputMissing env (OutputPath (prepareItem env True r))"
  "Status r = statusSuccess \<Longrightarrow>
     prepareItem env True r = r\<lparr>Status := statusQueued, Progress := [], OutputPath := [],
                               MissingOutput := False, ErrorMessage := []\<rparr>"
  "Status r \<noteq> statusSuccess \<Longrightarrow>
     prepareItem env True r = r\<lparr>MissingOutput := outputMissing env (OutputPath r)\<rparr>"
  "Status (prepareItem env True r) \<noteq> statusSuccess"
  by (simp_all add: prepareItem_def resetDownloaded_def Let_def outputMissing_def
      statusSuccess_def statusQueued_def)

lemma ImportTasks_replace:
  assumes "\<forall>t \<in> set raw. TrimSpace (ID t) \<noteq> []"
  shows "snd (ImportTasks a env (Records raw) ''replace'' ow)
     = a\<lparr>tasks := map_of (rev (map (\<lambda>t. (ID t, t)) (map (prepareItem env ow) raw))),
         order := map ID (map (prepareItem env ow) raw),
         queue := queue a @ map ID (filter (\<lambda>t. Status t = statusQueued) (map (prepareItem env ow) raw))\<rparr>"
proof -
  have p: "prepareImport env ow raw = Inr (map (prepareItem env ow) raw)"
    using assms by (simp add: prepareImport_eq)
  show ?thesis
    by (simp add: ImportTasks_def p replaceLoop_eq enqueueTasks_def del: map_map)
qed


text \<open>
  C8, as the code has it. An import with \<open>overwriteDownloaded\<close> is the plain import of
  the payload in which every record marked Success has been reset to Queued with progress,
  output path and error message cleared; \<open>missingOutput\<close> of every incoming record is
  computed from the disk. In mode \<open>replace\<close> no stored task is Success afterwards and
  the id of every incoming Success record is enqueued. A single incoming record marked
  Success, such as \<open>{id: x, status: Success, outputPath: /gone}\<close>, is stored as a Queued
  task with empty output path and error message and is enqueued in mode \<open>replace\<close>, and
  in mode \<open>merge\<close> when no task with its id is stored.
\<close>

theorem import_overwrite_downloaded:
  "ImportTasks a env (Records raw) mode True
     = ImportTasks a env (Records (map (prepareItem env True) raw)) mode False
   \<and> (\<forall>r \<in> set raw.
         MissingOutput (prepareItem env True r) = outputMissing env (OutputPath (prepareItem env True r))
         \<and> (Status r = statusSuccess \<longrightarrow>
               prepareItem env True r = r\<lparr>Status := statusQueued, Progress := [], OutputPath := [],
                                         MissingOutput := False, ErrorMessage := []\<rparr>)
         \<and> (Status r \<noteq> statusSuccess \<longrightarrow>
               prepareItem env True r = r\<lparr>MissingOutput := outputMissing env (OutputPath r)\<rparr>))
   \<and> ((\<forall>t \<in> set raw. TrimSpace (ID t) \<noteq> []) \<longrightarrow>
         (\<forall>k t. tasks (snd (ImportTasks a env (Records raw) ''replace'' True)) k = Some t \<longrightarrow>
                 Status t \<noteq> statusSuccess \<and> MissingOutput t = outputMissing env (OutputPath t))
         \<and> (\<forall>r \<in> set raw. Status r = statusSuccess \<longrightarrow>
                 ID r \<in> set (queue (snd (ImportTasks a env (Records raw) ''replace'' True)))))
   \<and> (TrimSpace (ID x) \<noteq> [] \<and> Status x = statusSuccess \<longrightarrow>
         snd (ImportTasks a env (Records [x]) ''replace'' True)
           = a\<lparr>tasks := [ID x \<mapsto> x\<lparr>Status := statusQueued, Progress := [], OutputPath := [],
                                     MissingOutput := False, ErrorMessage := []\<rparr>],
               order := [ID x], queue := queue a @ [ID x]\<rparr>
         \<and> (tasks a (ID x) = None \<longrightarrow>
               snd (ImportTasks a env (Records [x]) ''merge'' True)
                 = a\<lparr>tasks := (tasks a)(ID x \<mapsto> x\<lparr>Status := statusQueued, Progress := [],
                                                  OutputPath := [], MissingOutput := False,
                                                  ErrorMessage := []\<rparr>),
                     order := order a @ [ID x], queue := queue a @ [ID x]\<rparr>))"
proof (intro conjI impI ballI allI)
  have "prepareImport env False (map (prepareItem env True) raw) = prepareImport env True raw"
    by (simp add: prepareImport_eq prepareItem_idem)
  then show "ImportTasks a env (Records raw) mode True
     = ImportTasks a env (Records (map (prepareItem env True) raw)) mode False"
    by (simp add: ImportTasks_def)
next
  fix r :: Task
  show "MissingOutput (prepareItem env True r) = outputMissing env (OutputPath (prepareItem env True r))"
    by (rule prepareItem_overwrite)
next
  fix r :: Task
  assume "Status r = statusSuccess"
  then show "prepareItem env True r = r\<lparr>Status := statusQueued, Progress := [], OutputPath := [],
                                         MissingOutput := False, ErrorMessage := []\<rparr>"
    by (rule prepareItem_overwrite)
next
  fix r :: Task
  assume "Status r \<noteq> statusSuccess"
  then show "prepareItem env True r = r\<lparr>MissingOutput := outputMissing env (OutputPath r)\<rparr>"
    by (rule prepareItem_overwrite)
next
  fix k :: string and t :: Task
  assume nb: "\<forall>t \<in> set raw. TrimSpace (ID t) \<noteq> []"
    and st: "tasks (snd (ImportTasks a env (Records raw) ''replace'' True)) k = Some t"
  from st have "map_of (rev (map (\<lambda>t. (ID t, t)) (map (prepareItem env True) raw))) k = Some t"
    unfolding ImportTasks_replace [OF nb] by simp
  then have "(k, t) \<in> set (rev (map (\<lambda>t. (ID t, t)) (map (prepareItem env True) raw)))"
    by (rule map_of_SomeD)
  then have "t \<in> set (map (prepareItem env True) raw)"
    by auto
  then obtain r where t: "t = prepareItem env True r"
    by auto
  show "Status t \<noteq> statusSuccess"
    unfolding t by (rule prepareItem_overwrite)
  show "MissingOutput t = outputMissing env (OutputPath t)"
    unfolding t by (rule prepareItem_overwrite)
next
  fix r :: Task
  assume nb: "\<forall>t \<in> set raw. TrimSpace (ID t) \<noteq> []" and r: "r \<in> set raw" "Status r = statusSuccess"
  have q: "Status (prepareItem env True r) = statusQueued"
    using r(2) by (simp add: prepareItem_overwrite(2))
  have "prepareItem env True r
      \<in> set (filter (\<lambda>t. Status t = statusQueued) (map (prepareItem env True) raw))"
    using r(1) q by simp
  then have "ID (prepareItem env True r)
      \<in> set (map ID (filter (\<lambda>t. Status t = statusQueued) (map (prepareItem env True) raw)))"
    by (simp only: set_map) (rule imageI)
  then have "ID r
      \<in> set (map ID (filter (\<lambda>t. Status t = statusQueued) (map (prepareItem env True) raw)))"
    by (simp only: prepareItem_ID)
  then show "ID r \<in> set (queue (snd (ImportTasks a env (Records raw) ''replace'' True)))"
    unfolding ImportTasks_replace [OF nb] by simp
next
  assume h: "TrimSpace (ID x) \<noteq> [] \<and> Status x = statusSuccess"
  then have nb: "\<forall>t \<in> set [x]. TrimSpace (ID t) \<noteq> []"
    by simp
  have px: "prepareItem env True x = x\<lparr>Status := statusQueued, Progress := [], OutputPath := [],
                                     MissingOutput := False, ErrorMessage := []\<rparr>"
    using h by (simp add: prepareItem_overwrite(2))
  show "snd (ImportTasks a env (Records [x]) ''replace'' True)
           = a\<lparr>tasks := [ID x \<mapsto> x\<lparr>Status := statusQueued, Progress := [], OutputPath := [],
                                     MissingOutput := False, ErrorMessage := []\<rparr>],
               order := [ID x], queue := queue a @ [ID x]\<rparr>"
    unfolding ImportTasks_replace [OF nb] by (simp add: px)
next
  assume h: "TrimSpace (ID x) \<noteq> [] \<and> Status x = statusSuccess" and n: "tasks a (ID x) = None"
  have px: "prepareItem env True x = x\<lparr>Status := statusQueued, Progress := [], OutputPath := [],
                                     MissingOutput := False, ErrorMessage := []\<rparr>"
    using h by (simp add: prepareItem_overwrite(2))
  have p: "prepareImport env True [x] = Inr [prepareItem env True x]"
    using h by simp
  show "snd (ImportTasks a env (Records [x]) ''merge'' True)
                 = a\<lparr>tasks := (tasks a)(ID x \<mapsto> x\<lparr>Status := statusQueued, Progress := [],
                                                  OutputPath := [], MissingOutput := False,
                                                  ErrorMessage := []\<rparr>),
                     order := order a @ [ID x], queue := queue a @ [ID x]\<rparr>"
    using n by (simp add: ImportTasks_def p px enqueueTasks_def del: prepareImport.simps)
qed


theorem import_overwrite_downloaded_witness:
  "snd (ImportTasks NewApp bareEnv
      (Records [zeroTask\<lparr>ID := ''x'', Status := statusSuccess, OutputPath := ''/gone''\<rparr>])
      ''replace'' True)
     = NewApp\<lparr>tasks := [''x'' \<mapsto> zeroTask\<lparr>ID := ''x'', Status := statusQueued\<rparr>],
              order := [''x''], queue := [''x'']\<rparr>
   \<and> snd (ImportTasks NewApp bareEnv
      (Records [zeroTask\<lparr>ID := ''x'', Status := statusSuccess, OutputPath := ''/gone''\<rparr>])
      ''merge'' True)
     = NewApp\<lparr>tasks := [''x'' \<mapsto> zeroTask\<lparr>ID := ''x'', Status := statusQueued\<rparr>],
              order := [''x''], queue := [''x'']\<rparr>"
proof -
  define x where "x = zeroTask\<lparr>ID := ''x'', Status := statusSuccess, OutputPath := ''/gone''\<rparr>"
  have h: "TrimSpace (ID x) \<noteq> [] \<and> Status x = statusSuccess"
    by (simp add: x_def TrimSpace_x)
  have n: "tasks NewApp (ID x) = None"
    by (simp add: NewApp_def)
  have r: "x\<lparr>Status := statusQueued, Progress := [], OutputPath := [], MissingOutput := False,
            ErrorMessage := []\<rparr> = zeroTask\<lparr>ID := ''x'', Status := statusQueued\<rparr>"
    by (simp add: x_def zeroTask_def)
  note th = import_overwrite_downloaded [where a = NewApp and env = bareEnv and x = x]
  from th h have "snd (ImportTasks NewApp bareEnv (Records [x]) ''replace'' True)
      = NewApp\<lparr>tasks := [ID x \<mapsto> x\<lparr>Status := statusQueued, Progress := [], OutputPath := [],
                                     MissingOutput := False, ErrorMessage := []\<rparr>],
               order := [ID x], queue := queue NewApp @ [ID x]\<rparr>"
    by blast
  then have r1: "snd (ImportTasks NewApp bareEnv (Records [x]) ''replace'' True)
      = NewApp\<lparr>tasks := [''x'' \<mapsto> zeroTask\<lparr>ID := ''x'', Status := statusQueued\<rparr>],
              order := [''x''], queue := [''x'']\<rparr>"
    unfolding r by (simp add: x_def NewApp_def)
  from th h n have "snd (ImportTasks NewApp bareEnv (Records [x]) ''merge'' True)
      = NewApp\<lparr>tasks := (tasks NewApp)(ID x \<mapsto> x\<lparr>Status := statusQueued, Progress := [],
                                                  OutputPath := [], MissingOutput := False,
                                                  ErrorMessage := []\<rparr>),
                     order := order NewApp @ [ID x], queue := queue NewApp @ [ID x]\<rparr>"
    by blast
  then have r2: "snd (ImportTasks NewApp bareEnv (Records [x]) ''merge'' True)
      = NewApp\<lparr>tasks := [''x'' \<mapsto> zeroTask\<lparr>ID := ''x'', Status := statusQueued\<rparr>],
              order := [''x''], queue := [''x'']\<rparr>"
    unfolding r by (simp add: x_def NewApp_def)
  show ?thesis
    using r1 r2 unfolding x_def by simp
qed

text \<open>
  The claim as written fails in mode \<open>merge\<close> when a task with the id is already stored
  and is not older than the incoming record: the stored task stays as it is (here Failed,
  with its error message) and nothing is enqueued.
\<close>

theorem import_overwrite_merge_existing_counterexample:
  "fst (ImportTasks
      (NewApp\<lparr>tasks := [''x'' \<mapsto> zeroTask\<lparr>ID := ''x'', Status := statusFailed,
                                        ErrorMessage := ''boom'', UpdatedAt := 5\<rparr>],
              order := [''x'']\<rparr>)
      bareEnv
      (Records [zeroTask\<lparr>ID := ''x'', Status := statusSuccess, OutputPath := ''/gone''\<rparr>])
      ''merge'' True)
     = Inr [zeroTask\<lparr>ID := ''x'', Status := statusFailed, ErrorMessage := ''boom'', UpdatedAt := 5\<rparr>]
   \<and> queue (snd (ImportTasks
      (NewApp\<lparr>tasks := [''x'' \<mapsto> zeroTask\<lparr>ID := ''x'', Status := statusFailed,
                                        ErrorMessage := ''boom'', UpdatedAt := 5\<rparr>],
              order := [''x'']\<rparr>)
      bareEnv
      (Records [zeroTask\<lparr>ID := ''x'', Status := statusSuccess, OutputPath := ''/gone''\<rparr>])
      ''merge'' True)) = []"
  by (simp add: ImportTasks_def TrimSpace_x enqueueTasks_def NewApp_def zeroTask_def
      prepareItem_def resetDownloaded_def outputMissing_def statusSuccess_def statusQueued_def)

section \<open>Properties: the order list\<close>

text \<open>
  Where the invariant is kept: by every worker-side mutation, by deleting, by resuming, by
  a merge import of any payload, by a replace import or a load of records with pairwise
  different ids, and by creating tasks when the generated ids are new and pairwise
  different.
\<close>

lemma storeConsistent_update:
  assumes "storeConsistent a" "tasks a tid = Some t" "ID t' = tid"
  shows "storeConsistent (a\<lparr>tasks := (tasks a)(tid \<mapsto> t')\<rparr>)"
  using assms by (auto simp: storeConsistent_def)

lemma storeConsistent_queue:
  "storeConsistent (a\<lparr>queue := q\<rparr>) = storeConsistent a"
  by (simp add: storeConsistent_def)

lemma storeConsistent_applyWorker:
  assumes "storeConsistent a"
  shows "storeConsistent (applyWorker env a (tid, act))"
proof (cases "tasks a tid")
  case None
  with assms show ?thesis by (simp add: applyWorker_absent)
next
  case (Some t)
  have k: "ID t = tid"
    using assms Some by (simp add: storeConsistent_def)
  show ?thesis
  proof (cases act)
    case (MarkRunning now)
    show ?thesis
      unfolding MarkRunning applyWorker.simps runTask_markRunning_def Some option.case
      by (rule storeConsistent_update [OF assms Some]) (simp add: k)
  next
    case (ApplyMetadata now metadata)
    show ?thesis
      unfolding ApplyMetadata applyWorker.simps runTask_applyMetadata_def Some option.case Let_def
      by (rule storeConsistent_update [OF assms Some]) (simp add: k)
  next
    case (MarkDownload now)
    show ?thesis
      unfolding MarkDownload applyWorker.simps runTask_markDownload_def Some option.case
      by (rule storeConsistent_update [OF assms Some]) (simp add: k)
  next
    case (OnError now err cmdArgs out errOut)
    show ?thesis
      unfolding OnError applyWorker.simps runTask_onError_def failTask_def Some option.case
      by (rule storeConsistent_update [OF assms Some]) (simp add: k)
  next
    case (MarkFinalize now)
    show ?thesis
      unfolding MarkFinalize applyWorker.simps runTask_markFinalize_def Some option.case
      by (rule storeConsistent_update [OF assms Some]) (simp add: k)
  next
    case (MarkSuccess now outputPath)
    show ?thesis
      unfolding MarkSuccess applyWorker.simps runTask_markSuccess_def Some option.case Let_def
      by (rule storeConsistent_update [OF assms Some]) (simp add: k split: option.splits)
  next
    case (FailTask now message)
    show ?thesis
      unfolding FailTask applyWorker.simps failTask_def Some option.case
      by (rule storeConsistent_update [OF assms Some]) (simp add: k)
  next
    case (Prefetch now url)
    show ?thesis
    proof (cases "fetchMetadata env url")
      case None
      with assms show ?thesis by (simp add: Prefetch prefetchTaskMetadata_def)
    next
      case md: (Some metadata)
      show ?thesis
        unfolding Prefetch applyWorker.simps prefetchTaskMetadata_def md Some option.case Let_def
        by (rule storeConsistent_update [OF assms Some]) (simp add: k)
    qed
  next
    case (UpdateProgress now progress)
    show ?thesis
      using assms Some k
      by (auto simp: UpdateProgress updateTaskProgress_def Let_def intro!: storeConsistent_update)
  next
    case (ParseProgress now line)
    show ?thesis
      using assms Some k
      by (auto simp: ParseProgress parseProgress_def updateTaskProgress_def Let_def
          intro!: storeConsistent_update)
  qed
qed

lemma storeConsistent_DeleteTask:
  assumes "storeConsistent a"
  shows "storeConsistent (snd (DeleteTask a env tid))"
  using assms
  by (auto simp: DeleteTask_def storeConsistent_def Let_def split: option.splits if_splits)

lemma storeConsistent_Resume:
  assumes "storeConsistent a"
  shows "storeConsistent (snd (ResumeTask a now tid))"
    and "storeConsistent (snd (ForceResumeTask a now tid))"
proof -
  show "storeConsistent (snd (ResumeTask a now tid))"
  proof (cases "tasks a tid")
    case None
    with assms show ?thesis by (simp add: ResumeTask_def)
  next
    case (Some t)
    then have k: "ID t = tid" using assms by (simp add: storeConsistent_def)
    show ?thesis
      using assms Some k
      by (auto simp: ResumeTask_def enqueueTasks_def storeConsistent_queue Let_def
          intro!: storeConsistent_update)
  qed
  show "storeConsistent (snd (ForceResumeTask a now tid))"
  proof (cases "tasks a tid")
    case None
    with assms show ?thesis by (simp add: ForceResumeTask_def)
  next
    case (Some t)
    then have k: "ID t = tid" using assms by (simp add: storeConsistent_def)
    show ?thesis
      using assms Some k
      by (auto simp: ForceResumeTask_def enqueueTasks_def storeConsistent_queue Let_def
          intro!: storeConsistent_update)
  qed
qed

lemma storeConsistent_mergeLoop:
  assumes "storeConsistent a"
  shows "storeConsistent (fst (mergeLoop items (a, e)))"
  using assms
proof (induction items arbitrary: a e)
  case Nil
  then show ?case by simp
next
  case (Cons item items)
  show ?case
  proof (cases "tasks a (ID item)")
    case None
    let ?a1 = "a\<lparr>tasks := (tasks a)(ID item \<mapsto> item), order := order a @ [ID item]\<rparr>"
    have "storeConsistent ?a1"
      using Cons.prems None by (auto simp: storeConsistent_def)
    from Cons.IH [OF this] None show ?thesis by simp
  next
    case (Some existing)
    show ?thesis
    proof (cases "UpdatedAt existing < UpdatedAt item")
      case True
      have "storeConsistent (a\<lparr>tasks := (tasks a)(ID item \<mapsto> item\<lparr>CreatedAt := CreatedAt existing\<rparr>)\<rparr>)"
        by (rule storeConsistent_update [OF Cons.prems Some]) simp
      from Cons.IH [OF this] Some True show ?thesis by simp
    next
      case False
      with Cons.IH [OF Cons.prems] Some show ?thesis by simp
    qed
  qed
qed

lemma storeConsistent_appendLoop:
  assumes "distinct (map ID items)"
  shows "storeConsistent (a\<lparr>tasks := map_of (rev (map (\<lambda>t. (ID t, t)) items)), order := map ID items\<rparr>)"
proof -
  let ?m = "map_of (rev (map (\<lambda>t. (ID t, t)) items))"
  have "dom ?m = fst ` set (rev (map (\<lambda>t. (ID t, t)) items))"
    by (rule dom_map_of_conv_image_fst)
  also have "\<dots> = set (map ID items)"
    by (simp add: image_image)
  finally have d: "dom ?m = set (map ID items)" .
  have i: "ID t = k" if "?m k = Some t" for k t
  proof -
    from that have "(k, t) \<in> set (rev (map (\<lambda>t. (ID t, t)) items))"
      by (rule map_of_SomeD)
    then show ?thesis by auto
  qed
  show ?thesis
    unfolding storeConsistent_def
  proof (intro conjI allI impI)
    show "distinct (order (a\<lparr>tasks := ?m, order := map ID items\<rparr>))"
      using assms by simp
    show "set (order (a\<lparr>tasks := ?m, order := map ID items\<rparr>))
        = dom (tasks (a\<lparr>tasks := ?m, order := map ID items\<rparr>))"
      using d by simp
    fix k t
    assume "tasks (a\<lparr>tasks := ?m, order := map ID items\<rparr>) k = Some t"
    then have "?m k = Some t" by simp
    then show "ID t = k" by (rule i)
  qed
qed

lemma storeConsistent_replace:
  assumes "\<forall>t \<in> set raw. TrimSpace (ID t) \<noteq> []" "distinct (map ID raw)"
  shows "storeConsistent (snd (ImportTasks a env (Records raw) ''replace'' ow))"
proof -
  have "distinct (map ID (map (prepareItem env ow) raw))"
    using assms(2) by (simp add: comp_def)
  then show ?thesis
    unfolding ImportTasks_replace [OF assms(1)] storeConsistent_queue
    by (rule storeConsistent_appendLoop)
qed

lemma loadLoop_eq:
  "loadLoop items a =
     a\<lparr>tasks := tasks a ++ map_of (rev (map (\<lambda>t. (ID t, t)) items)),
       order := order a @ map ID items\<rparr>"
proof (induction items arbitrary: a)
  case Nil
  show ?case by simp
next
  case (Cons item items)
  let ?a1 = "a\<lparr>tasks := (tasks a)(ID item \<mapsto> item), order := order a @ [ID item]\<rparr>"
  have m: "tasks ?a1 ++ map_of (rev (map (\<lambda>t. (ID t, t)) items))
      = tasks a ++ map_of (rev (map (\<lambda>t. (ID t, t)) (item # items)))"
    by (rule ext) (simp add: map_add_def split: option.splits)
  have "loadLoop (item # items) a = loadLoop items ?a1"
    by simp
  also have "\<dots> = ?a1\<lparr>tasks := tasks ?a1 ++ map_of (rev (map (\<lambda>t. (ID t, t)) items)),
        order := order ?a1 @ map ID items\<rparr>"
    by (rule Cons)
  also have "\<dots> = a\<lparr>tasks := tasks a ++ map_of (rev (map (\<lambda>t. (ID t, t)) (item # items))),
        order := order a @ map ID (item # items)\<rparr>"
    unfolding m by simp
  finally show ?case .
qed

lemma storeConsistent_load:
  assumes "distinct (map ID items)"
  shows "storeConsistent (loadTasks NewApp (Some items))"
proof -
  have "loadTasks NewApp (Some items)
      = NewApp\<lparr>tasks := map_of (rev (map (\<lambda>t. (ID t, t)) items)), order := map ID items\<rparr>"
    by (simp add: loadTasks_def loadLoop_eq NewApp_def)
  then show ?thesis
    using storeConsistent_appendLoop [OF assms, of NewApp] by simp
qed

lemma storeConsistent_createLoop:
  assumes "storeConsistent a"
    and "distinct (map (newID env) [k..<k + length urls])"
    and "\<forall>i \<in> {k..<k + length urls}. tasks a (newID env i) = None"
  shows "storeConsistent (fst (createLoop env now k urls (a, created, ids)))"
  using assms
proof (induction urls arbitrary: k a created ids)
  case Nil
  then show ?case by simp
next
  case (Cons u urls)
  let ?tid = "newID env k"
  let ?task = "zeroTask\<lparr>ID := ?tid, URL := u, Title := defaultTitleFromURL env u,
                          SourceHost := sourceHostFromURL env u, Status := statusQueued,
                          Stage := ''Parse URL'', CreatedAt := now, UpdatedAt := now\<rparr>"
  let ?a1 = "a\<lparr>tasks := (tasks a)(?tid \<mapsto> ?task), order := order a @ [?tid]\<rparr>"
  have u: "createLoop env now k (u # urls) (a, created, ids)
      = createLoop env now (Suc k) urls (?a1, created @ [?task], ids @ [?tid])"
    by (simp add: Let_def)
  have "k < k + length (u # urls)"
    by simp
  from upt_conv_Cons [OF this]
  have r: "[k..<k + length (u # urls)] = k # [Suc k..<Suc k + length urls]"
    by simp
  have fresh: "tasks a ?tid = None"
    using Cons.prems(3) by simp
  have 1: "storeConsistent ?a1"
    using Cons.prems(1) fresh by (auto simp: storeConsistent_def)
  have 2: "distinct (map (newID env) [Suc k..<Suc k + length urls])"
    using Cons.prems(2) unfolding r by simp
  have 3: "\<forall>i \<in> {Suc k..<Suc k + length urls}. tasks ?a1 (newID env i) = None"
  proof
    fix i
    assume i: "i \<in> {Suc k..<Suc k + length urls}"
    then have "newID env i \<in> set (map (newID env) [Suc k..<Suc k + length urls])"
      by (simp only: set_map set_upt) (rule imageI)
    with Cons.prems(2) have "newID env i \<noteq> ?tid"
      unfolding r by auto
    moreover have "tasks a (newID env i) = None"
      using Cons.prems(3) i by simp
    ultimately show "tasks ?a1 (newID env i) = None"
      by simp
  qed
  show ?case
    unfolding u by (rule Cons.IH [OF 1 2 3])
qed

lemma storeConsistent_merge:
  assumes "storeConsistent a"
  shows "storeConsistent (snd (ImportTasks a env payload ''merge'' ow))"
proof (cases payload)
  case Blank
  with assms show ?thesis by (simp add: ImportTasks_def)
next
  case NotJSON
  with assms show ?thesis by (simp add: ImportTasks_def)
next
  case (Records raw)
  show ?thesis
  proof (cases "prepareImport env ow raw")
    case (Inl e)
    with assms Records show ?thesis by (simp add: ImportTasks_def)
  next
    case (Inr imported)
    obtain a' e' where m: "mergeLoop imported (a, []) = (a', e')"
      by (cases "mergeLoop imported (a, [])")
    have "storeConsistent a'"
      using storeConsistent_mergeLoop [OF assms, of imported "[]"] m by simp
    then show ?thesis
      using Records Inr m by (simp add: ImportTasks_def enqueueTasks_def storeConsistent_queue)
  qed
qed

lemma storeConsistent_create:
  assumes "storeConsistent a"
    and "distinct (map (newID env) [0..<0 + length (extractURLs input)])"
    and "\<forall>i \<in> {0..<0 + length (extractURLs input)}. tasks a (newID env i) = None"
  shows "storeConsistent (snd (CreateTasksFromText a env now input))"
proof (cases "extractURLs input = []")
  case True
  with assms(1) show ?thesis by (simp add: CreateTasksFromText_def)
next
  case False
  obtain a' created ids where c: "createLoop env now 0 (extractURLs input) (a, [], []) = (a', created, ids)"
    by (cases "createLoop env now 0 (extractURLs input) (a, [], [])") auto
  have "storeConsistent a'"
    using storeConsistent_createLoop [OF assms, of now "[]" "[]"] c by simp
  then show ?thesis
    using False c by (simp add: CreateTasksFromText_def enqueueTasks_def storeConsistent_queue)
qed

text \<open>
  C2 at a payload that names one id twice. In mode \<open>replace\<close> the loop appends every
  incoming id to \<open>order\<close> without looking it up, so \<open>order\<close> holds the id twice while
  the map holds one task, and the task is listed twice. The \<open>merge\<close> loop looks the id
  up first and appends it once. \<open>loadTasks\<close> appends like \<open>replace\<close>.
\<close>

theorem replace_import_duplicate_ids_order:
  "order (snd (ImportTasks NewApp bareEnv
      (Records [zeroTask\<lparr>ID := ''x''\<rparr>, zeroTask\<lparr>ID := ''x''\<rparr>]) ''replace'' False))
     = [''x'', ''x'']
   \<and> dom (tasks (snd (ImportTasks NewApp bareEnv
      (Records [zeroTask\<lparr>ID := ''x''\<rparr>, zeroTask\<lparr>ID := ''x''\<rparr>]) ''replace'' False)))
     = {''x''}
   \<and> length (ListTasks (snd (ImportTasks NewApp bareEnv
      (Records [zeroTask\<lparr>ID := ''x''\<rparr>, zeroTask\<lparr>ID := ''x''\<rparr>]) ''replace'' False))) = 2
   \<and> order (snd (ImportTasks NewApp bareEnv
      (Records [zeroTask\<lparr>ID := ''x''\<rparr>, zeroTask\<lparr>ID := ''x''\<rparr>]) ''merge'' False))
     = [''x'']
   \<and> order (loadTasks NewApp (Some [zeroTask\<lparr>ID := ''x''\<rparr>, zeroTask\<lparr>ID := ''x''\<rparr>]))
     = [''x'', ''x'']
   \<and> \<not> distinct (order (snd (ImportTasks NewApp bareEnv
      (Records [zeroTask\<lparr>ID := ''x''\<rparr>, zeroTask\<lparr>ID := ''x''\<rparr>]) ''replace'' False)))"
  by (simp add: ImportTasks_def TrimSpace_x enqueueTasks_def NewApp_def
      ListTasks_def loadTasks_def)


end
